theory Spec2Isabelle
  imports Complex_Main
begin

section \<open>The page: document tree, storage, events, timers\<close>

text \<open>
  The runtime of the theme package (\<open>theme-manager.js\<close>, \<open>animations.js\<close>) reads and
  writes the browser page. The page is modelled as an explicit state: the document as a
  tree of elements, the key-value storage as a map, and the dispatched window events, the
  pending timers and the console as lists the code appends to.

  An element carries what the code reads and writes: its attributes, its class list
  (\<open>classList\<close>, an ordered list of tokens without duplicates), its inline style, its own
  text and the layout height the browser reports for it (\<open>scrollHeight\<close>, which the code
  only reads).

  Outside the model: what the listeners of a dispatched event do, the default action
  that \<open>preventDefault\<close> suppresses, a storage that refuses a write, the browser's
  parsing of style values, and durations that are not whole numbers.
\<close>

record element =
  tag :: string
  attrs :: "string \<rightharpoonup> string"
  classes :: "string list"
  style :: "string \<rightharpoonup> string"
  textContent :: string
  scrollHeight :: nat

text \<open>
  A node is an element with its identity (a JavaScript object reference, here a number)
  and its child elements in document order.
\<close>

datatype node = Node (nid: nat) (elem: element) (kids: "node list")

text \<open>The callbacks the code hands to \<open>setTimeout\<close>, one constructor per closure.\<close>

datatype timer_action =
    RemoveAlert nat
  | ExpandDone nat
  | CollapseDone nat
  | AutoDismiss nat
  | UserCallback nat
  | FadeOutDone nat "nat option"
  | SlideDownDone nat "nat option"
  | SlideUpDone nat "nat option"
  | ScaleOutDone nat "nat option"

record theme_options =
  enableDarkMode :: bool
  autoDetectPreference :: bool
  storageKey :: string

text \<open>
  The state: the browser's part (\<open>doc\<close> to \<open>animations\<close>) and the two fields of the
  \<open>UnifiedTheme\<close> object (\<open>options\<close>, \<open>currentTheme\<close>). \<open>detached\<close> holds the
  trees that were removed from the document and are still referenced by a pending
  timer; \<open>next_id\<close> is the identity the next created element gets; \<open>dispatched\<close> lists
  the window events as (type, detail.theme); \<open>timers\<close> lists the pending
  \<open>setTimeout\<close> calls as (delay in ms, callback); \<open>called\<close> lists the user callbacks
  that have run; \<open>animations\<close> lists the Web Animations started with
  \<open>element.animate\<close> as (element, duration in ms).
\<close>

record page =
  doc :: node
  detached :: "node list"
  next_id :: nat
  localStorage :: "string \<rightharpoonup> string"
  dispatched :: "(string \<times> string) list"
  timers :: "(int \<times> timer_action) list"
  console :: "string list"
  called :: "nat list"
  animations :: "(nat \<times> nat) list"
  options :: theme_options
  currentTheme :: string

subsection \<open>Element operations\<close>

definition setAttribute :: "string \<Rightarrow> string \<Rightarrow> element \<Rightarrow> element" where
  "setAttribute k v e = e\<lparr>attrs := (attrs e)(k \<mapsto> v)\<rparr>"

definition getAttribute :: "string \<Rightarrow> element \<Rightarrow> string option" where
  "getAttribute k e = attrs e k"

definition classList_contains :: "string \<Rightarrow> element \<Rightarrow> bool" where
  "classList_contains c e = (c \<in> set (classes e))"

definition classList_add :: "string \<Rightarrow> element \<Rightarrow> element" where
  "classList_add c e = (if c \<in> set (classes e) then e else e\<lparr>classes := classes e @ [c]\<rparr>)"

definition classList_remove :: "string \<Rightarrow> element \<Rightarrow> element" where
  "classList_remove c e = e\<lparr>classes := filter (\<lambda>x. x \<noteq> c) (classes e)\<rparr>"

text \<open>\<open>classList.toggle(c, force)\<close>: with the second argument it adds or removes.\<close>

definition classList_toggle :: "string \<Rightarrow> bool \<Rightarrow> element \<Rightarrow> element" where
  "classList_toggle c force e = (if force then classList_add c e else classList_remove c e)"

text \<open>
  \<open>element.style.k = v\<close>. Assigning the empty string removes the property, and an
  absent property reads as the empty string. The value is kept as the code writes it
  (a browser reads the length \<open>0\<close> back as \<open>0px\<close>; the code reads back no length).
\<close>

definition setStyle :: "string \<Rightarrow> string \<Rightarrow> element \<Rightarrow> element" where
  "setStyle k v e = (if v = [] then e\<lparr>style := (style e)(k := None)\<rparr>
                     else e\<lparr>style := (style e)(k \<mapsto> v)\<rparr>)"

definition getStyle :: "string \<Rightarrow> element \<Rightarrow> string" where
  "getStyle k e = (case style e k of None \<Rightarrow> [] | Some v \<Rightarrow> v)"

text \<open>
  A number in a template string or a string concatenation: decimal digits. (From
  \<open>10^21\<close> on JavaScript writes an exponent; the numbers written here are durations
  and heights below that.)
\<close>

fun show_nat :: "nat \<Rightarrow> string" where
  "show_nat n = (if n < 10 then [''0123456789'' ! n]
                 else show_nat (n div 10) @ [''0123456789'' ! (n mod 10)])"

definition show_int :: "int \<Rightarrow> string" where
  "show_int i = (if i < 0 then ''-'' @ show_nat (nat (- i)) else show_nat (nat i))"

text \<open>
  A value that may be \<open>null\<close>, where the code passes it on as a string
  (\<open>getElementById(null)\<close> looks for the id \<open>"null"\<close>).
\<close>

definition js_string :: "string option \<Rightarrow> string" where
  "js_string v = (case v of None \<Rightarrow> ''null'' | Some s \<Rightarrow> s)"

subsection \<open>Tree operations\<close>

text \<open>
  \<open>flatten\<close> lists the elements of a tree in document order, each with the identities
  of its ancestors, nearest first.
\<close>

fun flatten :: "nat list \<Rightarrow> node \<Rightarrow> (nat \<times> nat list \<times> element) list" where
  "flatten up (Node i e ks) = (i, up, e) # concat (map (flatten (i # up)) ks)"

text \<open>\<open>amap f\<close> writes every element of a tree: \<open>f i\<close> is applied to the element \<open>i\<close>.\<close>

fun amap :: "(nat \<Rightarrow> element \<Rightarrow> element) \<Rightarrow> node \<Rightarrow> node" where
  "amap f (Node i e ks) = Node i (f i e) (map (amap f) ks)"

definition documentElement :: "page \<Rightarrow> nat" where
  "documentElement p = nid (doc p)"

text \<open>A write to the element \<open>n\<close>, wherever it is (in the document or detached).\<close>

definition update_element :: "nat \<Rightarrow> (element \<Rightarrow> element) \<Rightarrow> page \<Rightarrow> page" where
  "update_element n f p =
     p\<lparr>doc := amap (\<lambda>i e. if i = n then f e else e) (doc p),
       detached := map (amap (\<lambda>i e. if i = n then f e else e)) (detached p)\<rparr>"

text \<open>The identities of the document's elements, in document order.\<close>

definition doc_ids :: "page \<Rightarrow> nat list" where
  "doc_ids p = map fst (flatten [] (doc p))"

section \<open>Selectors and queries\<close>

text \<open>The selectors the code uses: \<open>[a]\<close>, \<open>.c\<close> and \<open>[a].c\<close>.\<close>

datatype selector = HasAttr string | HasClass string | HasAttrClass string string

fun matches :: "selector \<Rightarrow> element \<Rightarrow> bool" where
  "matches (HasAttr a) e = (attrs e a \<noteq> None)"
| "matches (HasClass c) e = (c \<in> set (classes e))"
| "matches (HasAttrClass a c) e = (attrs e a \<noteq> None \<and> c \<in> set (classes e))"

text \<open>Every element the page holds: the document's, then the detached ones.\<close>

definition entries :: "page \<Rightarrow> (nat \<times> nat list \<times> element) list" where
  "entries p = flatten [] (doc p) @ concat (map (flatten []) (detached p))"

text \<open>The ancestors and the fields of the element \<open>n\<close>.\<close>

definition lookup :: "nat \<Rightarrow> page \<Rightarrow> (nat list \<times> element) option" where
  "lookup n p = map_option snd (find (\<lambda>(i, up, e). i = n) (entries p))"

text \<open>\<open>document.querySelectorAll(sel)\<close>: the matching elements of the document, in order.\<close>

definition querySelectorAll :: "selector \<Rightarrow> page \<Rightarrow> nat list" where
  "querySelectorAll sel p =
     map fst (filter (\<lambda>(i, up, e). matches sel e) (flatten [] (doc p)))"

text \<open>\<open>g.querySelectorAll(sel)\<close>: the matching descendants of the element \<open>g\<close>.\<close>

definition element_querySelectorAll :: "nat \<Rightarrow> selector \<Rightarrow> page \<Rightarrow> nat list" where
  "element_querySelectorAll g sel p =
     map fst (filter (\<lambda>(i, up, e). g \<in> set up \<and> matches sel e) (entries p))"

text \<open>\<open>n.closest(sel)\<close>: the element itself or its nearest ancestor that matches.\<close>

definition closest :: "selector \<Rightarrow> nat \<Rightarrow> page \<Rightarrow> nat option" where
  "closest sel n p =
     (case lookup n p of
        None \<Rightarrow> None
      | Some (up, e) \<Rightarrow>
          find (\<lambda>a. case lookup a p of None \<Rightarrow> False | Some (ua, ea) \<Rightarrow> matches sel ea)
               (n # up))"

text \<open>
  \<open>document.getElementById(s)\<close>: the first element of the document whose \<open>id\<close> is
  \<open>s\<close>; the empty string finds nothing.
\<close>

definition getElementById :: "string \<Rightarrow> page \<Rightarrow> nat option" where
  "getElementById s p =
     (if s = [] then None
      else map_option fst (find (\<lambda>(i, up, e). attrs e ''id'' = Some s) (flatten [] (doc p))))"

text \<open>\<open>forEach\<close> over a list of elements, writing each.\<close>

definition forEach :: "nat list \<Rightarrow> (element \<Rightarrow> element) \<Rightarrow> page \<Rightarrow> page" where
  "forEach ns f p = fold (\<lambda>n. update_element n f) ns p"

definition setTimeout :: "timer_action \<Rightarrow> int \<Rightarrow> page \<Rightarrow> page" where
  "setTimeout a ms p = p\<lparr>timers := timers p @ [(ms, a)]\<rparr>"

section \<open>Creating, inserting and removing elements\<close>

text \<open>
  \<open>document.createElement(t)\<close>: a new element with a fresh identity. Until it is
  appended it is a tree of its own, held by the caller.
\<close>

definition createElement :: "string \<Rightarrow> page \<Rightarrow> node \<times> page" where
  "createElement t p =
     (Node (next_id p)
        \<lparr>tag = t, attrs = Map.empty, classes = [], style = Map.empty, textContent = [],
         scrollHeight = 0\<rparr> [],
      p\<lparr>next_id := Suc (next_id p)\<rparr>)"

text \<open>Writes to an element that is held by the caller.\<close>

definition node_update :: "(element \<Rightarrow> element) \<Rightarrow> node \<Rightarrow> node" where
  "node_update f n = Node (nid n) (f (elem n)) (kids n)"

definition node_append :: "node \<Rightarrow> node \<Rightarrow> node" where
  "node_append n child = Node (nid n) (elem n) (kids n @ [child])"

text \<open>ASCII whitespace, which separates the tokens of a class attribute.\<close>

definition is_space :: "char \<Rightarrow> bool" where
  "is_space c = (c = CHR '' '' \<or> c = CHR 0x09 \<or> c = CHR 0x0A \<or> c = CHR 0x0C \<or> c = CHR 0x0D)"

fun class_tokens :: "string \<Rightarrow> string \<Rightarrow> string list" where
  "class_tokens cur [] = (if cur = [] then [] else [cur])"
| "class_tokens cur (c # cs) =
     (if is_space c then (if cur = [] then class_tokens [] cs else cur # class_tokens [] cs)
      else class_tokens (cur @ [c]) cs)"

text \<open>
  \<open>element.className = s\<close>: the class list becomes the tokens of \<open>s\<close>, a repeated
  token staying where it first occurs.
\<close>

definition set_className :: "string \<Rightarrow> element \<Rightarrow> element" where
  "set_className s e = e\<lparr>classes := rev (remdups (rev (class_tokens [] s)))\<rparr>"

text \<open>
  \<open>parent.appendChild(child)\<close> for a child held by the caller: it becomes the last
  child of the element \<open>parent\<close>.
\<close>

fun graft :: "nat \<Rightarrow> node \<Rightarrow> node \<Rightarrow> node" where
  "graft parent child (Node i e ks) =
     (if i = parent then Node i e (ks @ [child])
      else Node i e (map (graft parent child) ks))"

definition appendChild :: "nat \<Rightarrow> node \<Rightarrow> page \<Rightarrow> page" where
  "appendChild parent child p =
     p\<lparr>doc := graft parent child (doc p), detached := map (graft parent child) (detached p)\<rparr>"

text \<open>\<open>document.body\<close>: the first \<open>body\<close> child of the root element, if any.\<close>

definition body :: "page \<Rightarrow> nat option" where
  "body p = map_option nid (find (\<lambda>k. tag (elem k) = ''body'') (kids (doc p)))"

text \<open>
  \<open>element.remove()\<close>: the element leaves its parent and, with its descendants,
  becomes a detached tree. An element that has no parent stays as it is. The root
  element of the document is taken to be permanent.
\<close>

fun subtrees :: "node \<Rightarrow> node list" where
  "subtrees (Node i e ks) = Node i e ks # concat (map subtrees ks)"

fun prune :: "nat \<Rightarrow> node \<Rightarrow> node" where
  "prune n (Node i e ks) = Node i e (map (prune n) (filter (\<lambda>k. nid k \<noteq> n) ks))"

definition children_named :: "nat \<Rightarrow> page \<Rightarrow> node list" where
  "children_named n p =
     filter (\<lambda>s. nid s = n)
       (concat (map (\<lambda>t. concat (map subtrees (kids t))) (doc p # detached p)))"

definition remove_element :: "nat \<Rightarrow> page \<Rightarrow> page" where
  "remove_element n p =
     p\<lparr>doc := prune n (doc p),
       detached := map (prune n) (detached p) @ children_named n p\<rparr>"

text \<open>
  \<open>element.parentNode\<close> is not null: the element is in the document (the parent of the
  root element is the document itself) or below the root of a detached tree.
\<close>

definition has_parentNode :: "nat \<Rightarrow> page \<Rightarrow> bool" where
  "has_parentNode n p =
     (n \<in> set (doc_ids p)
      \<or> list_ex (\<lambda>(i, up, e). i = n \<and> up \<noteq> []) (concat (map (flatten []) (detached p))))"

section \<open>UnifiedTheme: the theme state\<close>

text \<open>
  \<open>setTheme(theme)\<close>: stores the theme in the object, marks the document's root element
  (attribute \<open>data-theme\<close>, class \<open>dark\<close>), writes the storage entry and dispatches the
  \<open>themeChanged\<close> event.
\<close>

definition setTheme :: "string \<Rightarrow> page \<Rightarrow> page" where
  "setTheme theme p =
     (let p1 = p\<lparr>currentTheme := theme\<rparr>;
          p2 = update_element (documentElement p1) (setAttribute ''data-theme'' theme) p1;
          p3 = update_element (documentElement p2)
                 (classList_toggle ''dark'' (theme = ''dark'')) p2;
          p4 = p3\<lparr>localStorage := (localStorage p3)(storageKey (options p3) \<mapsto> theme)\<rparr>
      in p4\<lparr>dispatched := dispatched p4 @ [(''themeChanged'', theme)]\<rparr>)"

definition toggleTheme :: "page \<Rightarrow> page" where
  "toggleTheme p =
     (let newTheme = (if currentTheme p = ''light'' then ''dark'' else ''light'')
      in setTheme newTheme p)"

definition getTheme :: "page \<Rightarrow> string" where
  "getTheme p = currentTheme p"

text \<open>
  \<open>initDarkMode\<close>: \<open>prefersDark\<close> is what the browser answers to the media query
  \<open>(prefers-color-scheme: dark)\<close>. A stored value counts when it is a non-empty string
  (the test \<open>if (savedTheme)\<close>).
\<close>

definition initDarkMode :: "bool \<Rightarrow> page \<Rightarrow> page" where
  "initDarkMode prefersDark p =
     (case localStorage p (storageKey (options p)) of
        Some savedTheme \<Rightarrow>
          if savedTheme \<noteq> [] then setTheme savedTheme p
          else if autoDetectPreference (options p)
               then setTheme (if prefersDark then ''dark'' else ''light'') p
               else p
      | None \<Rightarrow>
          if autoDetectPreference (options p)
          then setTheme (if prefersDark then ''dark'' else ''light'') p
          else p)"

text \<open>
  The listener \<open>initDarkMode\<close> registers for a change of the system preference (it
  exists only with \<open>autoDetectPreference\<close> and after \<open>initDarkMode\<close> ran, that is
  with \<open>enableDarkMode\<close>).
\<close>

definition systemPreferenceChanged :: "bool \<Rightarrow> page \<Rightarrow> page" where
  "systemPreferenceChanged e_matches p =
     (if enableDarkMode (options p) \<and> autoDetectPreference (options p)
      then (case localStorage p (storageKey (options p)) of
              None \<Rightarrow> setTheme (if e_matches then ''dark'' else ''light'') p
            | Some v \<Rightarrow> if v = [] then setTheme (if e_matches then ''dark'' else ''light'') p
                        else p)
      else p)"

text \<open>
  The constructor: the defaults, overridden by the given options; \<open>currentTheme\<close>
  starts as \<open>light\<close>; \<open>init\<close> registers the click listeners (which change nothing
  until a click) and runs \<open>initDarkMode\<close> when dark mode is enabled.
\<close>

record given_options =
  given_enableDarkMode :: "bool option"
  given_autoDetectPreference :: "bool option"
  given_storageKey :: "string option"

definition resolve_options :: "given_options \<Rightarrow> theme_options" where
  "resolve_options g =
     \<lparr>enableDarkMode = (case given_enableDarkMode g of None \<Rightarrow> True | Some b \<Rightarrow> b),
      autoDetectPreference = (case given_autoDetectPreference g of None \<Rightarrow> True | Some b \<Rightarrow> b),
      storageKey = (case given_storageKey g of None \<Rightarrow> ''unified-theme-mode'' | Some k \<Rightarrow> k)\<rparr>"

definition init :: "bool \<Rightarrow> page \<Rightarrow> page" where
  "init prefersDark p = (if enableDarkMode (options p) then initDarkMode prefersDark p else p)"

definition constructor :: "given_options \<Rightarrow> bool \<Rightarrow> page \<Rightarrow> page" where
  "constructor g prefersDark p =
     init prefersDark (p\<lparr>options := resolve_options g, currentTheme := ''light''\<rparr>)"

text \<open>The public operations on the theme, and a run of them.\<close>

datatype theme_op = SetTheme string | ToggleTheme

fun theme_step :: "theme_op \<Rightarrow> page \<Rightarrow> page" where
  "theme_step (SetTheme t) p = setTheme t p"
| "theme_step ToggleTheme p = toggleTheme p"

fun theme_run :: "theme_op list \<Rightarrow> page \<Rightarrow> page" where
  "theme_run [] p = p"
| "theme_run (x # xs) p = theme_run xs (theme_step x p)"

section \<open>UnifiedTheme: the widgets\<close>

subsection \<open>Alerts\<close>

definition dismissAlert :: "nat \<Rightarrow> page \<Rightarrow> page" where
  "dismissAlert alert p =
     (let p1 = update_element alert (setStyle ''transition'' ''all 0.3s ease'') p;
          p2 = update_element alert (setStyle ''opacity'' ''0'') p1;
          p3 = update_element alert (setStyle ''transform'' ''translateY(-10px)'') p2
      in setTimeout (RemoveAlert alert) 300 p3)"

text \<open>The click listener of \<open>setupAlertDismissal\<close>; \<open>target\<close> is the clicked element.\<close>

definition alert_click :: "nat \<Rightarrow> page \<Rightarrow> page" where
  "alert_click target p =
     (case closest (HasClass ''alert-close'') target p of
        None \<Rightarrow> p
      | Some b \<Rightarrow>
          (case closest (HasClass ''alert'') target p of
             None \<Rightarrow> p
           | Some alert \<Rightarrow> dismissAlert alert p))"

subsection \<open>Collapse\<close>

text \<open>
  \<open>toggleCollapse(element)\<close>. \<open>scrollHeight\<close> is the height the browser reports when
  the code reads it. An identity that names no element of the page has nothing to write.
\<close>

definition toggleCollapse :: "nat \<Rightarrow> page \<Rightarrow> page" where
  "toggleCollapse element p =
     (case lookup element p of
        None \<Rightarrow> p
      | Some (up, e) \<Rightarrow>
          let isCollapsed = (getStyle ''display'' e = ''none''
                             \<or> classList_contains ''collapsed'' e)
          in if isCollapsed
             then
               let p1 = update_element element (setStyle ''display'' ''block'') p;
                   p2 = update_element element (classList_remove ''collapsed'') p1;
                   p3 = update_element element (classList_add ''collapsing'') p2;
                   p4 = update_element element
                          (setStyle ''height'' (show_nat (scrollHeight e) @ ''px'')) p3
               in setTimeout (ExpandDone element) 300 p4
             else
               let p1 = update_element element
                          (setStyle ''height'' (show_nat (scrollHeight e) @ ''px'')) p;
                   p2 = update_element element (classList_add ''collapsing'') p1;
                   p3 = update_element element (setStyle ''height'' ''0'') p2
               in setTimeout (CollapseDone element) 300 p3)"

text \<open>The click listener of \<open>setupCollapseToggle\<close>.\<close>

definition collapse_click :: "nat \<Rightarrow> page \<Rightarrow> page" where
  "collapse_click target p =
     (case closest (HasAttr ''data-collapse-toggle'') target p of
        None \<Rightarrow> p
      | Some toggle \<Rightarrow>
          (case lookup toggle p of
             None \<Rightarrow> p
           | Some (up, e) \<Rightarrow>
               let targetId = getAttribute ''data-collapse-toggle'' e
               in (case getElementById (js_string targetId) p of
                     None \<Rightarrow> p
                   | Some t \<Rightarrow> toggleCollapse t p)))"

subsection \<open>Dropdowns\<close>

definition closeAllDropdowns :: "page \<Rightarrow> page" where
  "closeAllDropdowns p =
     (let openDropdowns = querySelectorAll (HasAttrClass ''data-dropdown'' ''open'') p
      in forEach openDropdowns
           (\<lambda>e. setAttribute ''aria-expanded'' ''false'' (classList_remove ''open'' e)) p)"

definition toggleDropdown :: "nat \<Rightarrow> page \<Rightarrow> page" where
  "toggleDropdown dropdown p =
     (case lookup dropdown p of
        None \<Rightarrow> closeAllDropdowns p
      | Some (up, e) \<Rightarrow>
          let isOpen = classList_contains ''open'' e;
              p1 = closeAllDropdowns p
          in if \<not> isOpen
             then update_element dropdown (setAttribute ''aria-expanded'' ''true'')
                    (update_element dropdown (classList_add ''open'') p1)
             else p1)"

text \<open>The click listener of \<open>setupDropdowns\<close>.\<close>

definition dropdown_click :: "nat \<Rightarrow> page \<Rightarrow> page" where
  "dropdown_click target p =
     (case closest (HasAttr ''data-dropdown'') target p of
        Some dropdown \<Rightarrow> toggleDropdown dropdown p
      | None \<Rightarrow> closeAllDropdowns p)"

subsection \<open>Tabs\<close>

definition switchTab :: "nat \<Rightarrow> page \<Rightarrow> page" where
  "switchTab tab p =
     (case lookup tab p of
        None \<Rightarrow> p
      | Some (up, e) \<Rightarrow>
          let targetId = getAttribute ''data-tab'' e;
              tabGroup = closest (HasAttr ''data-tab-group'') tab p
          in (case tabGroup of
                None \<Rightarrow> p
              | Some g \<Rightarrow>
                  let tabs = element_querySelectorAll g (HasAttr ''data-tab'') p;
                      p1 = forEach tabs
                             (\<lambda>t. setAttribute ''aria-selected'' ''false''
                                    (classList_remove ''active'' t)) p;
                      p2 = update_element tab (classList_add ''active'') p1;
                      p3 = update_element tab (setAttribute ''aria-selected'' ''true'') p2;
                      panels = querySelectorAll (HasAttr ''data-tab-panel'') p3;
                      p4 = forEach panels
                             (\<lambda>panel. setAttribute ''aria-hidden'' ''true''
                                        (setStyle ''display'' ''none'' panel)) p3;
                      targetPanel = getElementById (js_string targetId) p4
                  in (case targetPanel of
                        None \<Rightarrow> p4
                      | Some tp \<Rightarrow>
                          update_element tp (setAttribute ''aria-hidden'' ''false'')
                            (update_element tp (setStyle ''display'' ''block'') p4))))"

text \<open>The click listener of \<open>setupTabs\<close>.\<close>

definition tab_click :: "nat \<Rightarrow> page \<Rightarrow> page" where
  "tab_click target p =
     (case closest (HasAttr ''data-tab'') target p of
        None \<Rightarrow> p
      | Some tab \<Rightarrow> switchTab tab p)"

subsection \<open>A click\<close>

text \<open>
  \<open>setupComponentInteractions\<close> registers four click listeners on the document, in
  this order: alerts, collapse, dropdowns, tabs. A click on the element \<open>target\<close> runs
  them in the order of their registration. (The listeners that \<open>setupThemeToggle\<close> puts
  on the theme buttons are not part of it: they write the root element only.)
\<close>

definition document_click :: "nat \<Rightarrow> page \<Rightarrow> page" where
  "document_click target p =
     tab_click target (dropdown_click target (collapse_click target (alert_click target p)))"

text \<open>
  A page that loads the entry point \<open>unified-theme.js\<close> holds two \<open>UnifiedTheme\<close>
  objects: the module \<open>theme-manager.js\<close> constructs one when it is loaded
  (\<open>window.unifiedTheme = new UnifiedTheme()\<close>), and the entry point, which imports the
  module, constructs another (\<open>const themeManager = new UnifiedTheme()\<close>). Each
  constructor registers the four listeners, and none of the four reads or writes the
  state of its object, so a click runs the four listeners twice. (The ripple listener of
  the entry point is left out: it writes the style of a \<open>.btn\<close> element and appends a
  \<open>span\<close> to it.)
\<close>

definition entry_click :: "nat \<Rightarrow> page \<Rightarrow> page" where
  "entry_click target p = document_click target (document_click target p)"

section \<open>UnifiedTheme: notifications\<close>

text \<open>
  The exceptions the code can meet: \<open>classList.add\<close> refuses a token with whitespace;
  \<open>document.body.appendChild\<close> fails when the document has no body.
\<close>

datatype error = InvalidCharacterError | TypeError

text \<open>The options of \<open>notify\<close>; a field that is not given takes its default.\<close>

record notify_options =
  opt_type :: "string option"
  opt_duration :: "int option"
  opt_position :: "string option"
  opt_dismissible :: "bool option"

definition getNotificationContainer :: "string \<Rightarrow> page \<Rightarrow> error + (nat \<times> page)" where
  "getNotificationContainer position p =
     (let containerId = ''notifications-'' @ position
      in case getElementById containerId p of
           Some container \<Rightarrow> Inr (container, p)
         | None \<Rightarrow>
             (case createElement ''div'' p of
                (c, p1) \<Rightarrow>
                  let c1 = node_update (setAttribute ''id'' containerId) c;
                      c2 = node_update
                             (set_className (''notifications notifications-'' @ position)) c1
                  in (case body p1 of
                        None \<Rightarrow> Inl TypeError
                      | Some b \<Rightarrow> Inr (nid c2, appendChild b c2 p1))))"

text \<open>
  \<open>notify(message, options)\<close> returns the notification element. The text of the close
  button is the multiplication sign that \<open>&times;\<close> stands for, in UTF-8.
\<close>

definition notify :: "string \<Rightarrow> notify_options \<Rightarrow> page \<Rightarrow> error + (nat \<times> page)" where
  "notify message opts p =
     (let config_type = (case opt_type opts of None \<Rightarrow> ''info'' | Some t \<Rightarrow> t);
          config_duration = (case opt_duration opts of None \<Rightarrow> 5000 | Some d \<Rightarrow> d);
          config_position = (case opt_position opts of None \<Rightarrow> ''top-right'' | Some s \<Rightarrow> s);
          config_dismissible = (case opt_dismissible opts of None \<Rightarrow> True | Some b \<Rightarrow> b)
      in case createElement ''div'' p of
           (n0, p1) \<Rightarrow>
             let n1 = node_update
                        (set_className (''alert alert-'' @ config_type @ '' notification'')) n0
             in (case createElement ''span'' p1 of
                   (s0, p2) \<Rightarrow>
                     let messageSpan = node_update (\<lambda>e. e\<lparr>textContent := message\<rparr>) s0;
                         n2 = node_append n1 messageSpan;
                         (n3, p3) =
                           (if config_dismissible
                            then (case createElement ''button'' p2 of
                                    (b0, p3) \<Rightarrow>
                                      let b1 = node_update (set_className ''alert-close'') b0;
                                          b2 = node_update
                                                 (setAttribute ''aria-label'' ''Close'') b1;
                                          closeButton = node_update
                                                 (\<lambda>e. e\<lparr>textContent := [CHR 0xC3, CHR 0x97]\<rparr>) b2
                                      in (node_append n2 closeButton, p3))
                            else (n2, p2))
                     in if list_ex is_space (''notification-'' @ config_position)
                        then Inl InvalidCharacterError
                        else
                          let notification =
                                node_update (classList_add (''notification-'' @ config_position)) n3
                          in (case getNotificationContainer config_position p3 of
                                Inl err \<Rightarrow> Inl err
                              | Inr (container, p4) \<Rightarrow>
                                  let p5 = appendChild container notification p4;
                                      p6 = (if config_duration > 0
                                            then setTimeout (AutoDismiss (nid notification))
                                                   config_duration p5
                                            else p5)
                                  in Inr (nid notification, p6))))"

section \<open>Timers\<close>

text \<open>What each pending callback does when the browser runs it.\<close>

fun fire :: "timer_action \<Rightarrow> page \<Rightarrow> page" where
  "fire (RemoveAlert alert) p = remove_element alert p"
| "fire (ExpandDone element) p =
     update_element element (setStyle ''height'' '''')
       (update_element element (classList_remove ''collapsing'') p)"
| "fire (CollapseDone element) p =
     update_element element (setStyle ''height'' '''')
       (update_element element (classList_add ''collapsed'')
          (update_element element (classList_remove ''collapsing'')
             (update_element element (setStyle ''display'' ''none'') p)))"
| "fire (AutoDismiss notification) p =
     (if has_parentNode notification p then dismissAlert notification p else p)"
| "fire (UserCallback c) p = p\<lparr>called := called p @ [c]\<rparr>"
| "fire (FadeOutDone element callback) p =
     (let p1 = update_element element (setStyle ''display'' ''none'') p
      in case callback of None \<Rightarrow> p1 | Some c \<Rightarrow> p1\<lparr>called := called p1 @ [c]\<rparr>)"
| "fire (SlideDownDone element callback) p =
     (let p1 = update_element element (setStyle ''height'' '''') p;
          p2 = update_element element (setStyle ''overflow'' '''') p1
      in case callback of None \<Rightarrow> p2 | Some c \<Rightarrow> p2\<lparr>called := called p2 @ [c]\<rparr>)"
| "fire (SlideUpDone element callback) p =
     (let p1 = update_element element (setStyle ''display'' ''none'') p;
          p2 = update_element element (setStyle ''height'' '''') p1;
          p3 = update_element element (setStyle ''overflow'' '''') p2
      in case callback of None \<Rightarrow> p3 | Some c \<Rightarrow> p3\<lparr>called := called p3 @ [c]\<rparr>)"
| "fire (ScaleOutDone element callback) p =
     (let p1 = update_element element (setStyle ''display'' ''none'') p
      in case callback of None \<Rightarrow> p1 | Some c \<Rightarrow> p1\<lparr>called := called p1 @ [c]\<rparr>)"

text \<open>The browser runs the pending timer number \<open>k\<close>: it leaves the list and fires.\<close>

definition run_timer :: "nat \<Rightarrow> page \<Rightarrow> page" where
  "run_timer k p =
     (if k < length (timers p)
      then fire (snd (timers p ! k)) (p\<lparr>timers := take k (timers p) @ drop (Suc k) (timers p)\<rparr>)
      else p)"

section \<open>AnimationUtils\<close>

text \<open>
  The helpers of \<open>animations.js\<close>. A duration is a whole number of milliseconds; an
  omitted duration is \<open>None\<close> and takes the default. A callback is a function of the
  caller, named by a number; \<open>None\<close> is \<open>null\<close>. Calling it appends its name to
  \<open>called\<close>.
\<close>

definition defaultDuration :: int where
  "defaultDuration = 300"

definition defaultEasing :: string where
  "defaultEasing = ''ease-in-out''"

definition or_default :: "int option \<Rightarrow> int" where
  "or_default duration = (case duration of None \<Rightarrow> defaultDuration | Some d \<Rightarrow> d)"

definition invoke :: "nat option \<Rightarrow> page \<Rightarrow> page" where
  "invoke callback p = (case callback of None \<Rightarrow> p | Some c \<Rightarrow> p\<lparr>called := called p @ [c]\<rparr>)"

text \<open>The height the browser reports for an element (0 for one the page does not hold).\<close>

definition scrollHeight_of :: "nat \<Rightarrow> page \<Rightarrow> nat" where
  "scrollHeight_of n p = (case lookup n p of None \<Rightarrow> 0 | Some (up, e) \<Rightarrow> scrollHeight e)"

definition fadeIn :: "nat \<Rightarrow> int option \<Rightarrow> nat option \<Rightarrow> page \<Rightarrow> page" where
  "fadeIn element duration callback p =
     (let d = or_default duration;
          p1 = update_element element (setStyle ''opacity'' ''0'') p;
          p2 = update_element element (setStyle ''display'' ''block'') p1;
          p3 = update_element element
                 (setStyle ''transition'' (''opacity '' @ show_int d @ ''ms '' @ defaultEasing)) p2;
          p4 = update_element element (setStyle ''opacity'' ''1'') p3
      in case callback of None \<Rightarrow> p4 | Some c \<Rightarrow> setTimeout (UserCallback c) d p4)"

definition fadeOut :: "nat \<Rightarrow> int option \<Rightarrow> nat option \<Rightarrow> page \<Rightarrow> page" where
  "fadeOut element duration callback p =
     (let d = or_default duration;
          p1 = update_element element (setStyle ''opacity'' ''1'') p;
          p2 = update_element element
                 (setStyle ''transition'' (''opacity '' @ show_int d @ ''ms '' @ defaultEasing)) p1;
          p3 = update_element element (setStyle ''opacity'' ''0'') p2
      in setTimeout (FadeOutDone element callback) d p3)"

definition slideDown :: "nat \<Rightarrow> int option \<Rightarrow> nat option \<Rightarrow> page \<Rightarrow> page" where
  "slideDown element duration callback p =
     (let d = or_default duration;
          p1 = update_element element (setStyle ''height'' ''0'') p;
          p2 = update_element element (setStyle ''overflow'' ''hidden'') p1;
          p3 = update_element element (setStyle ''display'' ''block'') p2;
          p4 = update_element element
                 (setStyle ''transition'' (''height '' @ show_int d @ ''ms '' @ defaultEasing)) p3;
          targetHeight = scrollHeight_of element p4;
          p5 = update_element element (setStyle ''height'' (show_nat targetHeight @ ''px'')) p4
      in setTimeout (SlideDownDone element callback) d p5)"

definition slideUp :: "nat \<Rightarrow> int option \<Rightarrow> nat option \<Rightarrow> page \<Rightarrow> page" where
  "slideUp element duration callback p =
     (let d = or_default duration;
          p1 = update_element element
                 (setStyle ''height'' (show_nat (scrollHeight_of element p) @ ''px'')) p;
          p2 = update_element element (setStyle ''overflow'' ''hidden'') p1;
          p3 = update_element element
                 (setStyle ''transition'' (''height '' @ show_int d @ ''ms '' @ defaultEasing)) p2;
          p4 = update_element element (setStyle ''height'' ''0'') p3
      in setTimeout (SlideUpDone element callback) d p4)"

definition scale_transition :: "int \<Rightarrow> string" where
  "scale_transition d =
     ''transform '' @ show_int d @ ''ms '' @ defaultEasing
     @ '', opacity '' @ show_int d @ ''ms '' @ defaultEasing"

definition scaleIn :: "nat \<Rightarrow> int option \<Rightarrow> nat option \<Rightarrow> page \<Rightarrow> page" where
  "scaleIn element duration callback p =
     (let d = or_default duration;
          p1 = update_element element (setStyle ''transform'' ''scale(0)'') p;
          p2 = update_element element (setStyle ''opacity'' ''0'') p1;
          p3 = update_element element (setStyle ''display'' ''block'') p2;
          p4 = update_element element (setStyle ''transition'' (scale_transition d)) p3;
          p5 = update_element element (setStyle ''transform'' ''scale(1)'') p4;
          p6 = update_element element (setStyle ''opacity'' ''1'') p5
      in case callback of None \<Rightarrow> p6 | Some c \<Rightarrow> setTimeout (UserCallback c) d p6)"

definition scaleOut :: "nat \<Rightarrow> int option \<Rightarrow> nat option \<Rightarrow> page \<Rightarrow> page" where
  "scaleOut element duration callback p =
     (let d = or_default duration;
          p1 = update_element element (setStyle ''transform'' ''scale(1)'') p;
          p2 = update_element element (setStyle ''opacity'' ''1'') p1;
          p3 = update_element element (setStyle ''transition'' (scale_transition d)) p2;
          p4 = update_element element (setStyle ''transform'' ''scale(0)'') p3;
          p5 = update_element element (setStyle ''opacity'' ''0'') p4
      in setTimeout (ScaleOutDone element callback) d p5)"

text \<open>\<open>bounce\<close> and \<open>shake\<close> start a Web Animation of 600 and 500 ms.\<close>

definition bounce :: "nat \<Rightarrow> page \<Rightarrow> page" where
  "bounce element p = p\<lparr>animations := animations p @ [(element, 600)]\<rparr>"

definition shake :: "nat \<Rightarrow> page \<Rightarrow> page" where
  "shake element p = p\<lparr>animations := animations p @ [(element, 500)]\<rparr>"

text \<open>\<open>console.warn\<close> appends its message to the console.\<close>

definition console_warn :: "string \<Rightarrow> page \<Rightarrow> page" where
  "console_warn msg p = p\<lparr>console := console p @ [msg]\<rparr>"

text \<open>\<open>animate(element, animation, duration, callback)\<close>: the \<open>switch\<close>, case by case.\<close>

definition animate :: "nat \<Rightarrow> string \<Rightarrow> int option \<Rightarrow> nat option \<Rightarrow> page \<Rightarrow> page" where
  "animate element animation duration callback p =
     (let d = Some (or_default duration)
      in if animation = ''fadeIn'' then fadeIn element d callback p
         else if animation = ''fadeOut'' then fadeOut element d callback p
         else if animation = ''slideDown'' then slideDown element d callback p
         else if animation = ''slideUp'' then slideUp element d callback p
         else if animation = ''scaleIn'' then scaleIn element d callback p
         else if animation = ''scaleOut'' then scaleOut element d callback p
         else if animation = ''bounce'' then invoke callback (bounce element p)
         else if animation = ''shake'' then invoke callback (shake element p)
         else invoke callback
                (console_warn (''Animation '' @ [CHR 0x22] @ animation @ [CHR 0x22]
                               @ '' not found'') p))"

subsection \<open>JavaScript numbers\<close>

text \<open>
  A finite number of JavaScript is a binary64 floating-point number, modelled by the
  rational it stands for. An arithmetic operation gives the exact result rounded to the
  nearest binary64 number, a tie going to the even significand. The binary exponent of
  a positive rational is the \<open>e\<close> with \<open>2^e \<le> x < 2^(e + 1)\<close>, found by halving or
  doubling.
\<close>

function log2_up :: "rat \<Rightarrow> int" where
  "log2_up x = (if 2 \<le> x then log2_up (x / 2) + 1 else 0)"
  by pat_completeness auto
termination
proof (relation "measure (\<lambda>x. nat \<lfloor>x\<rfloor>)")
  show "wf (measure (\<lambda>x::rat. nat \<lfloor>x\<rfloor>))" by simp
next
  fix x :: rat assume "2 \<le> x"
  then have "x / 2 \<le> x - 1" by simp
  then have "\<lfloor>x / 2\<rfloor> \<le> \<lfloor>x - 1\<rfloor>" by (rule floor_mono)
  moreover have "1 \<le> \<lfloor>x\<rfloor>" using \<open>2 \<le> x\<close> by (simp add: le_floor_iff)
  ultimately show "(x / 2, x) \<in> measure (\<lambda>x. nat \<lfloor>x\<rfloor>)" by simp
qed

function log2_down :: "rat \<Rightarrow> int" where
  "log2_down x = (if 0 < x \<and> x < 1 then log2_down (2 * x) - 1 else 0)"
  by pat_completeness auto
termination
proof (relation "measure (\<lambda>x. nat \<lfloor>1 / x\<rfloor>)")
  show "wf (measure (\<lambda>x::rat. nat \<lfloor>1 / x\<rfloor>))" by simp
next
  fix x :: rat assume a: "0 < x \<and> x < 1"
  define y where "y = 1 / x"
  have y: "1 < y" using a by (simp add: y_def)
  have "\<lfloor>y / 2\<rfloor> < \<lfloor>y\<rfloor>"
  proof (cases "2 \<le> y")
    case True
    then have "y / 2 \<le> y - 1" by simp
    then have "\<lfloor>y / 2\<rfloor> \<le> \<lfloor>y - 1\<rfloor>" by (rule floor_mono)
    then show ?thesis by simp
  next
    case False
    then have "y / 2 < 1" by simp
    then have "\<lfloor>y / 2\<rfloor> < 1" by (simp only: floor_less_iff of_int_1)
    moreover have "(1::rat) \<le> y" using y by simp
    then have "1 \<le> \<lfloor>y\<rfloor>" by (simp only: le_floor_iff of_int_1)
    ultimately show ?thesis by linarith
  qed
  moreover have "1 / (2 * x) = y / 2" by (simp add: y_def)
  ultimately have "\<lfloor>1 / (2 * x)\<rfloor> < \<lfloor>1 / x\<rfloor>" by (simp only: y_def)
  moreover have "0 < \<lfloor>1 / x\<rfloor>"
  proof -
    have "(1::rat) \<le> y" using y by simp
    then have "1 \<le> \<lfloor>y\<rfloor>" by (simp only: le_floor_iff of_int_1)
    then show ?thesis by (simp only: y_def)
  qed
  ultimately show "(2 * x, x) \<in> measure (\<lambda>x. nat \<lfloor>1 / x\<rfloor>)"
    unfolding measure_def inv_image_def by simp
qed

declare log2_up.simps [simp del]
declare log2_down.simps [simp del]

definition exponent :: "rat \<Rightarrow> int" where
  "exponent x = (if 1 \<le> x then log2_up x else log2_down x)"

text \<open>The nearest whole number, a tie going to the even one.\<close>

definition round_even :: "rat \<Rightarrow> int" where
  "round_even r =
     (let f = \<lfloor>r\<rfloor>; d = r - of_int f
      in if d < 1 / 2 then f else if 1 / 2 < d then f + 1 else if even f then f else f + 1)"

text \<open>
  The distance between neighbouring binary64 numbers at \<open>x\<close>: the significand has 53
  bits, and below \<open>2^-1022\<close> the numbers are subnormal and keep the distance \<open>2^-1074\<close>.
\<close>

definition ulp :: "rat \<Rightarrow> rat" where
  "ulp x = 2 powi (max (exponent \<bar>x\<bar>) (- 1022) - 52)"

text \<open>
  The binary64 number that an exact result \<open>x\<close> is rounded to. A result of magnitude
  \<open>2^1024\<close> or more, which JavaScript gives as an infinity, is outside this model, and
  so is the sign of a zero.
\<close>

definition fl :: "rat \<Rightarrow> rat" where
  "fl x = of_int (round_even (x / ulp x)) * ulp x"

text \<open>
  The values of a JavaScript number: the finite ones, and those that only a division by
  zero produces here.
\<close>

datatype js_number = Finite rat | NaN | PosInfinity | NegInfinity

subsection \<open>The counter animation\<close>

text \<open>
  \<open>element.textContent = s\<close>: the text replaces the children of the element, which
  become detached trees.
\<close>

fun set_text :: "nat \<Rightarrow> string \<Rightarrow> node \<Rightarrow> node" where
  "set_text n s (Node i e ks) =
     (if i = n then Node i (e\<lparr>textContent := s\<rparr>) []
      else Node i e (map (set_text n s) ks))"

definition children_of :: "nat \<Rightarrow> page \<Rightarrow> node list" where
  "children_of n p =
     concat (map kids (filter (\<lambda>s. nid s = n) (concat (map subtrees (doc p # detached p)))))"

definition set_textContent :: "nat \<Rightarrow> string \<Rightarrow> page \<Rightarrow> page" where
  "set_textContent n s p =
     p\<lparr>doc := set_text n s (doc p),
       detached := map (set_text n s) (detached p) @ children_of n p\<rparr>"

text \<open>
  One call of the frame callback \<open>animate(currentTime)\<close>: the number it writes, and
  whether it asks for another frame (\<open>progress < 1\<close>). Every operation of the callback
  rounds its result. Two functions belong to the host and are parameters: \<open>pow3 x\<close> is
  \<open>Math.pow(x, 3)\<close>, whose accuracy the language leaves to the implementation, and
  \<open>toLocaleString\<close> writes a number in the default locale of the runtime. With the
  duration 0 the division gives an infinity or \<open>NaN\<close>, written out here: a positive
  elapsed time gives the progress 1, the elapsed time 0 gives \<open>NaN\<close>, and a negative one
  gives an infinite value whose sign is opposite to that of the difference.
\<close>

definition counter_frame ::
  "(rat \<Rightarrow> rat) \<Rightarrow> rat \<Rightarrow> rat \<Rightarrow> rat \<Rightarrow> rat \<Rightarrow> rat \<Rightarrow> js_number \<times> bool" where
  "counter_frame pow3 startTime start end duration currentTime =
     (let difference = fl (end - start);
          elapsedTime = fl (currentTime - startTime)
      in if duration = 0 \<and> elapsedTime = 0 then (NaN, False)
         else if duration = 0 \<and> elapsedTime < 0
         then ((if 0 < difference then NegInfinity
                else if difference < 0 then PosInfinity else NaN), True)
         else
           let progress = (if duration = 0 then 1 else min (fl (elapsedTime / duration)) 1);
               easeOut = fl (1 - pow3 (fl (1 - progress)));
               currentValue = \<lfloor>fl (start + fl (difference * easeOut))\<rfloor>
           in (Finite (of_int currentValue), progress < 1))"

text \<open>
  The frame loop over the times the browser passes to the successive frame callbacks:
  the numbers written to the element, in order, and whether the animation has completed
  (the last write is then the end value). While no frame has reached the progress 1 the
  animation is pending.
\<close>

fun counter_loop ::
  "(rat \<Rightarrow> rat) \<Rightarrow> rat \<Rightarrow> rat \<Rightarrow> rat \<Rightarrow> rat \<Rightarrow> rat list \<Rightarrow> js_number list \<times> bool" where
  "counter_loop pow3 startTime start end duration [] = ([], False)"
| "counter_loop pow3 startTime start end duration (t # ts) =
     (case counter_frame pow3 startTime start end duration t of
        (v, again) \<Rightarrow>
          if again
          then (case counter_loop pow3 startTime start end duration ts of
                  (vs, completed) \<Rightarrow> (v # vs, completed))
          else ([v, Finite end], True))"

text \<open>
  \<open>animateCounter(element, start, end, duration)\<close>, called at the time \<open>startTime\<close>
  (\<open>performance.now()\<close>), followed by the frames at the times \<open>frames\<close>.
\<close>

definition animateCounter ::
  "(rat \<Rightarrow> rat) \<Rightarrow> (js_number \<Rightarrow> string) \<Rightarrow> nat \<Rightarrow> rat \<Rightarrow> rat \<Rightarrow> rat option \<Rightarrow> rat
     \<Rightarrow> rat list \<Rightarrow> page \<Rightarrow> page \<times> bool" where
  "animateCounter pow3 toLocaleString element start end duration startTime frames p =
     (let d = (case duration of None \<Rightarrow> 2000 | Some d \<Rightarrow> d)
      in case counter_loop pow3 startTime start end d frames of
           (shown, completed) \<Rightarrow>
             (fold (\<lambda>v. set_textContent element (toLocaleString v)) shown p, completed))"

section \<open>Auxiliary definitions\<close>

text \<open>
  Names for the queries the code makes and for what an operation does to one element.
  The theorems are stated with them; none of them is part of the program.
\<close>

subsection \<open>Dropdowns\<close>

text \<open>The open dropdowns: the query of \<open>closeAllDropdowns\<close>.\<close>

definition open_dropdowns :: "page \<Rightarrow> nat list" where
  "open_dropdowns p = querySelectorAll (HasAttrClass ''data-dropdown'' ''open'') p"

text \<open>What \<open>closeAllDropdowns\<close> does to the element \<open>i\<close>.\<close>

definition close_map :: "page \<Rightarrow> nat \<Rightarrow> element \<Rightarrow> element" where
  "close_map p i e =
     (if i \<in> set (open_dropdowns p)
      then setAttribute ''aria-expanded'' ''false'' (classList_remove ''open'' e) else e)"

text \<open>\<open>toggleDropdown(d)\<close> opens \<open>d\<close> when it was not open.\<close>

definition opened :: "nat \<Rightarrow> page \<Rightarrow> bool" where
  "opened d p = (case lookup d p of None \<Rightarrow> False
                 | Some (up, e) \<Rightarrow> \<not> classList_contains ''open'' e)"

text \<open>What \<open>toggleDropdown(d)\<close> does to the element \<open>i\<close>.\<close>

definition toggle_map :: "nat \<Rightarrow> page \<Rightarrow> nat \<Rightarrow> element \<Rightarrow> element" where
  "toggle_map d p i e =
     (if opened d p \<and> i = d
      then setAttribute ''aria-expanded'' ''true'' (classList_add ''open'' (close_map p i e))
      else close_map p i e)"

text \<open>
  What the dropdown listener reads of an element, whether it has the attribute
  \<open>data-dropdown\<close> and whether it has the class \<open>open\<close>, and what it reads of a page:
  the elements of the document and the detached ones, each with its ancestors.
\<close>

definition dropdown_bits :: "element \<Rightarrow> bool \<times> bool" where
  "dropdown_bits e = (attrs e ''data-dropdown'' \<noteq> None, ''open'' \<in> set (classes e))"

definition dropdown_view ::
  "page \<Rightarrow> (nat \<times> nat list \<times> bool \<times> bool) list \<times> (nat \<times> nat list \<times> bool \<times> bool) list" where
  "dropdown_view p =
     (map (\<lambda>(i, u, e). (i, u, dropdown_bits e)) (flatten [] (doc p)),
      map (\<lambda>(i, u, e). (i, u, dropdown_bits e)) (concat (map (flatten []) (detached p))))"

subsection \<open>Tabs\<close>

text \<open>Writing every element of the page: \<open>h i\<close> is applied to the element \<open>i\<close>.\<close>

definition pmap :: "(nat \<Rightarrow> element \<Rightarrow> element) \<Rightarrow> page \<Rightarrow> page" where
  "pmap h p = p\<lparr>doc := amap h (doc p), detached := map (amap h) (detached p)\<rparr>"

text \<open>The queries of \<open>switchTab\<close>.\<close>

definition group_tabs :: "nat \<Rightarrow> page \<Rightarrow> nat list" where
  "group_tabs g p = element_querySelectorAll g (HasAttr ''data-tab'') p"

definition tab_panels :: "page \<Rightarrow> nat list" where
  "tab_panels p = querySelectorAll (HasAttr ''data-tab-panel'') p"

definition target_panel :: "nat \<Rightarrow> page \<Rightarrow> nat option" where
  "target_panel tab p =
     (case lookup tab p of
        None \<Rightarrow> None
      | Some (up, e) \<Rightarrow> getElementById (js_string (getAttribute ''data-tab'' e)) p)"

text \<open>What \<open>switchTab(tab)\<close> does to the element \<open>i\<close>, step by step.\<close>

definition switch_map :: "nat list \<Rightarrow> nat \<Rightarrow> nat list \<Rightarrow> nat option \<Rightarrow> nat \<Rightarrow> element \<Rightarrow> element" where
  "switch_map tabs tab panels tp i e =
     (let e1 = (if i \<in> set tabs
                then setAttribute ''aria-selected'' ''false'' (classList_remove ''active'' e)
                else e);
          e2 = (if i = tab
                then setAttribute ''aria-selected'' ''true'' (classList_add ''active'' e1)
                else e1);
          e3 = (if i \<in> set panels
                then setAttribute ''aria-hidden'' ''true'' (setStyle ''display'' ''none'' e2)
                else e2)
      in if tp = Some i
         then setAttribute ''aria-hidden'' ''false'' (setStyle ''display'' ''block'' e3)
         else e3)"

definition deactivate :: "element \<Rightarrow> element" where
  "deactivate e = setAttribute ''aria-selected'' ''false'' (classList_remove ''active'' e)"

definition hide :: "element \<Rightarrow> element" where
  "hide e = setAttribute ''aria-hidden'' ''true'' (setStyle ''display'' ''none'' e)"

text \<open>The fields of the element \<open>i\<close>, when the page holds it.\<close>

definition element_at :: "nat \<Rightarrow> page \<Rightarrow> element option" where
  "element_at i p = map_option snd (lookup i p)"

subsection \<open>Notifications\<close>

text \<open>The elements of the document whose id is \<open>s\<close>, in document order.\<close>

definition elements_by_id :: "string \<Rightarrow> page \<Rightarrow> nat list" where
  "elements_by_id s p =
     map fst (filter (\<lambda>(i, u, e). attrs e ''id'' = Some s) (flatten [] (doc p)))"

text \<open>The parent element of \<open>n\<close>, when it has one.\<close>

definition parentElement :: "nat \<Rightarrow> page \<Rightarrow> nat option" where
  "parentElement n p = (case lookup n p of Some (a # u, e) \<Rightarrow> Some a | _ \<Rightarrow> None)"

text \<open>The options of \<open>notify\<close> after the defaults.\<close>

definition config_duration :: "notify_options \<Rightarrow> int" where
  "config_duration opts = (case opt_duration opts of None \<Rightarrow> 5000 | Some d \<Rightarrow> d)"

definition config_position :: "notify_options \<Rightarrow> string" where
  "config_position opts = (case opt_position opts of None \<Rightarrow> ''top-right'' | Some s \<Rightarrow> s)"

definition config_dismissible :: "notify_options \<Rightarrow> bool" where
  "config_dismissible opts = (case opt_dismissible opts of None \<Rightarrow> True | Some b \<Rightarrow> b)"

definition config_type :: "notify_options \<Rightarrow> string" where
  "config_type opts = (case opt_type opts of None \<Rightarrow> ''info'' | Some t \<Rightarrow> t)"

text \<open>The tree \<open>notify\<close> builds, with the identities \<open>k\<close>, \<open>k + 1\<close>, \<open>k + 2\<close>.\<close>

definition blank :: "string \<Rightarrow> element" where
  "blank t = \<lparr>tag = t, attrs = Map.empty, classes = [], style = Map.empty, textContent = [],
              scrollHeight = 0\<rparr>"

definition notification_node :: "string \<Rightarrow> notify_options \<Rightarrow> nat \<Rightarrow> node" where
  "notification_node message opts k =
     Node k
       (classList_add (''notification-'' @ config_position opts)
          (set_className (''alert alert-'' @ config_type opts @ '' notification'')
             (blank ''div'')))
       (Node (Suc k) ((blank ''span'')\<lparr>textContent := message\<rparr>) []
        # (if config_dismissible opts
           then [Node (Suc (Suc k))
                   ((setAttribute ''aria-label'' ''Close''
                       (set_className ''alert-close'' (blank ''button'')))
                      \<lparr>textContent := [CHR 0xC3, CHR 0x97]\<rparr>) []]
           else []))"

definition created :: "notify_options \<Rightarrow> nat" where
  "created opts = (if config_dismissible opts then 3 else 2)"

text \<open>The container \<open>getNotificationContainer\<close> creates, with the identity \<open>k\<close>.\<close>

definition container_node :: "string \<Rightarrow> nat \<Rightarrow> node" where
  "container_node position k =
     Node k
       (set_className (''notifications notifications-'' @ position)
          (setAttribute ''id'' (''notifications-'' @ position) (blank ''div''))) []"

text \<open>Every element of the document is older than the next element to be created.\<close>

definition fresh_ids :: "page \<Rightarrow> bool" where
  "fresh_ids p = list_all (\<lambda>i. i < next_id p) (doc_ids p)"

subsection \<open>The counter\<close>

text \<open>
  The progress a frame at the time \<open>t\<close> computes, for a duration other than 0, and the
  number it writes.
\<close>

definition progress :: "rat \<Rightarrow> rat \<Rightarrow> rat \<Rightarrow> rat" where
  "progress startTime duration t = min (fl (fl (t - startTime) / duration)) 1"

definition eased_value :: "(rat \<Rightarrow> rat) \<Rightarrow> rat \<Rightarrow> rat \<Rightarrow> rat \<Rightarrow> rat \<Rightarrow> rat \<Rightarrow> int" where
  "eased_value pow3 startTime start end duration t =
     \<lfloor>fl (start + fl (fl (end - start)
                       * fl (1 - pow3 (fl (1 - progress startTime duration t)))))\<rfloor>"

text \<open>One of the frames has reached the progress 1.\<close>

definition reached :: "rat \<Rightarrow> rat \<Rightarrow> rat list \<Rightarrow> bool" where
  "reached startTime duration ts = list_ex (\<lambda>t. \<not> progress startTime duration t < 1) ts"

text \<open>
  The number the element shows after the frames \<open>ts\<close>, of which there is at least one:
  the end value once a frame has reached the progress 1, and before that the number of
  the last frame.
\<close>

definition displayed :: "(rat \<Rightarrow> rat) \<Rightarrow> rat \<Rightarrow> rat \<Rightarrow> rat \<Rightarrow> rat \<Rightarrow> rat list \<Rightarrow> rat" where
  "displayed pow3 startTime start end duration ts =
     (if reached startTime duration ts then end
      else of_int (eased_value pow3 startTime start end duration (last ts)))"

text \<open>The text of an element of the page.\<close>

definition text_of :: "nat \<Rightarrow> page \<Rightarrow> string option" where
  "text_of n p = map_option textContent (element_at n p)"

section \<open>Example pages\<close>

text \<open>Concrete pages and options, on which the theorems are instantiated.\<close>

definition plain :: "string \<Rightarrow> element" where
  "plain t = \<lparr>tag = t, attrs = Map.empty, classes = [], style = Map.empty,
              textContent = [], scrollHeight = 0\<rparr>"

definition blank_page :: page where
  "blank_page =
     \<lparr>doc = Node 0 (plain ''html'') [Node 1 (plain ''head'') [], Node 2 (plain ''body'') []],
      detached = [], next_id = 3, localStorage = Map.empty, dispatched = [], timers = [],
      console = [], called = [], animations = [],
      options = \<lparr>enableDarkMode = True, autoDetectPreference = True,
                  storageKey = ''unified-theme-mode''\<rparr>,
      currentTheme = ''light''\<rparr>"

definition default_options :: given_options where
  "default_options = \<lparr>given_enableDarkMode = None, given_autoDetectPreference = None,
                       given_storageKey = None\<rparr>"

text \<open>Three dropdowns, one of them open, one with a child.\<close>

definition dropdown_page :: page where
  "dropdown_page = blank_page\<lparr>doc :=
     Node 0 (plain ''html'')
       [Node 1 (plain ''body'')
          [Node 10 ((plain ''div'')\<lparr>attrs := [''data-dropdown'' \<mapsto> '''']\<rparr>)
             [Node 13 (plain ''span'') []],
           Node 11 ((plain ''div'')\<lparr>attrs := [''data-dropdown'' \<mapsto> '''']\<rparr>) [],
           Node 12 ((plain ''div'')\<lparr>attrs := [''data-dropdown'' \<mapsto> ''''],
                                      classes := [''menu'', ''open'']\<rparr>) []]]\<rparr>"

text \<open>
  Two tab groups, each with its panels; in the first group a tab whose panel does not
  exist; a tab outside every group; two collapse toggles, one whose target does not
  exist.
\<close>

definition tabs_page :: page where
  "tabs_page = blank_page\<lparr>doc :=
     Node 0 (plain ''html'')
       [Node 1 (plain ''body'')
          [Node 10 ((plain ''div'')\<lparr>attrs := [''data-tab-group'' \<mapsto> '''']\<rparr>)
             [Node 11 ((plain ''button'')\<lparr>attrs := [''data-tab'' \<mapsto> ''p1''],
                                           classes := [''active'']\<rparr>) [],
              Node 12 ((plain ''button'')\<lparr>attrs := [''data-tab'' \<mapsto> ''p2'']\<rparr>) [],
              Node 13 ((plain ''div'')\<lparr>attrs := [''id'' \<mapsto> ''p1'', ''data-tab-panel'' \<mapsto> ''''],
                                        style := [''display'' \<mapsto> ''block'']\<rparr>) [],
              Node 14 ((plain ''div'')\<lparr>attrs := [''id'' \<mapsto> ''p2'', ''data-tab-panel'' \<mapsto> ''''],
                                        style := [''display'' \<mapsto> ''none'']\<rparr>) [],
              Node 15 ((plain ''button'')\<lparr>attrs := [''data-tab'' \<mapsto> ''missing'']\<rparr>) []],
           Node 20 ((plain ''div'')\<lparr>attrs := [''data-tab-group'' \<mapsto> '''']\<rparr>)
             [Node 21 ((plain ''button'')\<lparr>attrs := [''data-tab'' \<mapsto> ''q1''],
                                           classes := [''active'']\<rparr>) [],
              Node 22 ((plain ''div'')\<lparr>attrs := [''id'' \<mapsto> ''q1'', ''data-tab-panel'' \<mapsto> ''''],
                                        style := [''display'' \<mapsto> ''block'']\<rparr>) []],
           Node 30 ((plain ''button'')\<lparr>attrs := [''data-tab'' \<mapsto> ''p1'']\<rparr>) [],
           Node 31 ((plain ''button'')\<lparr>attrs := [''data-collapse-toggle'' \<mapsto> ''nothing'']\<rparr>)
             [Node 34 (plain ''span'') []],
           Node 32 ((plain ''button'')\<lparr>attrs := [''data-collapse-toggle'' \<mapsto> ''box'']\<rparr>) [],
           Node 33 ((plain ''div'')\<lparr>attrs := [''id'' \<mapsto> ''box''], scrollHeight := 40\<rparr>) []]]\<rparr>"

definition default_notify :: notify_options where
  "default_notify = \<lparr>opt_type = None, opt_duration = None, opt_position = None,
                      opt_dismissible = None\<rparr>"

text \<open>
  An example host: \<open>Math.pow(x, 3)\<close> correctly rounded, and the \<open>en-US\<close> locale, which
  writes a whole number with its digits in groups of three (fraction digits are left
  out here: the examples write whole numbers only).
\<close>

definition pow3_rounded :: "rat \<Rightarrow> rat" where
  "pow3_rounded x = fl (x ^ 3)"

fun group3 :: "string \<Rightarrow> string" where
  "group3 (a # b # c # d # r) = a # b # c # CHR '','' # group3 (d # r)"
| "group3 ds = ds"

definition en_US :: "js_number \<Rightarrow> string" where
  "en_US v =
     (case v of
        Finite r \<Rightarrow> (if r < 0 then ''-'' else []) @ rev (group3 (rev (show_nat (nat \<lfloor>\<bar>r\<bar>\<rfloor>))))
      | NaN \<Rightarrow> ''NaN''
      | PosInfinity \<Rightarrow> [CHR 0xE2, CHR 0x88, CHR 0x9E]
      | NegInfinity \<Rightarrow> ''-'' @ [CHR 0xE2, CHR 0x88, CHR 0x9E])"

text \<open>The binary64 number nearest to 999.999.\<close>

definition near_999_999 :: rat where
  "near_999_999 = 4398042113057489 / 4398046511104"

section \<open>Properties of the theme state\<close>

lemma nid_amap [simp]: "nid (amap f t) = nid t"
  by (cases t) simp

lemma elem_amap [simp]: "elem (amap f t) = f (nid t) (elem t)"
  by (cases t) simp

lemma currentTheme_setTheme [simp]: "currentTheme (setTheme t p) = t"
  by (simp add: setTheme_def Let_def update_element_def)

lemma currentTheme_toggleTheme:
  "currentTheme (toggleTheme p) = ''light'' \<or> currentTheme (toggleTheme p) = ''dark''"
  by (simp add: toggleTheme_def Let_def)

text \<open>
  C1. After \<open>setTheme("dark")\<close> and then \<open>setTheme("light")\<close>, from any page: the root
  element has \<open>data-theme = "light"\<close> and no class \<open>dark\<close>, the storage entry under the
  configured key is \<open>"light"\<close>, \<open>getTheme()\<close> is \<open>"light"\<close>, and the two calls
  appended the \<open>themeChanged\<close> events for \<open>"dark"\<close> and \<open>"light"\<close>, in this
  order; every \<open>setTheme\<close> call appends one \<open>themeChanged\<close> event carrying the theme
  it set.
\<close>

theorem setTheme_dark_then_light:
  "attrs (elem (doc (setTheme ''light'' (setTheme ''dark'' p)))) ''data-theme'' = Some ''light''
   \<and> ''dark'' \<notin> set (classes (elem (doc (setTheme ''light'' (setTheme ''dark'' p)))))
   \<and> localStorage (setTheme ''light'' (setTheme ''dark'' p)) (storageKey (options p))
       = Some ''light''
   \<and> options (setTheme ''light'' (setTheme ''dark'' p)) = options p
   \<and> getTheme (setTheme ''light'' (setTheme ''dark'' p)) = ''light''
   \<and> dispatched (setTheme ''light'' (setTheme ''dark'' p))
       = dispatched p @ [(''themeChanged'', ''dark''), (''themeChanged'', ''light'')]
   \<and> (\<forall>t q. dispatched (setTheme t q) = dispatched q @ [(''themeChanged'', t)])"
proof -
  let ?q = "setTheme ''light'' (setTheme ''dark'' p)"
  have root: "elem (doc ?q)
      = classList_toggle ''dark'' False
          (setAttribute ''data-theme'' ''light''
             (classList_toggle ''dark'' True
                (setAttribute ''data-theme'' ''dark'' (elem (doc p)))))"
    by (simp add: setTheme_def update_element_def documentElement_def Let_def)
  have 1: "attrs (elem (doc ?q)) ''data-theme'' = Some ''light''"
    unfolding root
    by (simp add: setAttribute_def classList_toggle_def classList_remove_def classList_add_def)
  have 2: "''dark'' \<notin> set (classes (elem (doc ?q)))"
    unfolding root by (simp add: classList_toggle_def classList_remove_def)
  have 3: "localStorage ?q (storageKey (options p)) = Some ''light''"
    and 4: "options ?q = options p"
    and 5: "getTheme ?q = ''light''"
    by (simp_all add: setTheme_def getTheme_def update_element_def Let_def)
  have 7: "\<forall>t q. dispatched (setTheme t q) = dispatched q @ [(''themeChanged'', t)]"
    by (simp add: setTheme_def update_element_def Let_def)
  then have 6: "dispatched ?q
                = dispatched p @ [(''themeChanged'', ''dark''), (''themeChanged'', ''light'')]"
    by simp
  from 1 2 3 4 5 6 7 show ?thesis by blast
qed

text \<open>
  C2, as stated, fails: \<open>setTheme\<close> stores any string, and \<open>toggleTheme\<close> sends every
  theme other than \<open>"light"\<close> to \<open>"light"\<close>. From the theme \<open>"blue"\<close> two toggles end
  at \<open>"dark"\<close>.
\<close>

theorem toggleTheme_twice_counterexample:
  "getTheme (toggleTheme (toggleTheme (setTheme ''blue'' blank_page)))
     \<noteq> getTheme (setTheme ''blue'' blank_page)"
  by (simp add: getTheme_def toggleTheme_def Let_def)

text \<open>
  C2, amended. When the current theme is \<open>"light"\<close> or \<open>"dark"\<close>, two calls of
  \<open>toggleTheme()\<close> leave \<open>getTheme()\<close> as it was.
\<close>

theorem toggleTheme_twice:
  "getTheme p = ''light'' \<or> getTheme p = ''dark''
   \<Longrightarrow> getTheme (toggleTheme (toggleTheme p)) = getTheme p"
  by (auto simp add: getTheme_def toggleTheme_def Let_def)

theorem toggleTheme_twice_witness:
  "(getTheme blank_page = ''light'' \<or> getTheme blank_page = ''dark'')
   \<and> getTheme (toggleTheme (toggleTheme blank_page)) = getTheme blank_page"
  using toggleTheme_twice [of blank_page] by (simp add: getTheme_def blank_page_def)

lemma theme_step_two_valued:
  "(\<forall>t. x = SetTheme t \<longrightarrow> t = ''light'' \<or> t = ''dark'')
   \<Longrightarrow> currentTheme (theme_step x p) = ''light'' \<or> currentTheme (theme_step x p) = ''dark''"
  by (cases x) (simp_all add: currentTheme_toggleTheme)

lemma theme_run_two_valued:
  "currentTheme p = ''light'' \<or> currentTheme p = ''dark''
   \<Longrightarrow> (\<forall>t. SetTheme t \<in> set xs \<longrightarrow> t = ''light'' \<or> t = ''dark'')
   \<Longrightarrow> currentTheme (theme_run xs p) = ''light'' \<or> currentTheme (theme_run xs p) = ''dark''"
proof (induction xs arbitrary: p)
  case Nil
  then show ?case by simp
next
  case (Cons x xs)
  have "currentTheme (theme_step x p) = ''light'' \<or> currentTheme (theme_step x p) = ''dark''"
    using Cons.prems(2) by (intro theme_step_two_valued) simp
  then show ?case using Cons.IH [of "theme_step x p"] Cons.prems(2) by simp
qed

lemma constructor_two_valued:
  assumes "\<forall>v. localStorage p (storageKey (resolve_options g)) = Some v
             \<longrightarrow> v = [] \<or> v = ''light'' \<or> v = ''dark''"
  shows "currentTheme (constructor g prefersDark p) = ''light''
         \<or> currentTheme (constructor g prefersDark p) = ''dark''"
  using assms
  by (auto simp add: constructor_def init_def initDarkMode_def split: option.splits)

text \<open>
  C3, as stated, fails: \<open>setTheme\<close> does not check its argument, so after
  \<open>setTheme("blue")\<close> the theme is \<open>"blue"\<close>.
\<close>

theorem theme_two_valued_counterexample:
  "getTheme (theme_run [SetTheme ''blue''] (constructor default_options False blank_page))
     = ''blue''"
  by (simp add: getTheme_def)

text \<open>
  C3, amended. The theme is the string last given to \<open>setTheme\<close>. After the constructor
  and any run of \<open>setTheme\<close> and \<open>toggleTheme\<close> calls, \<open>getTheme()\<close> is \<open>"light"\<close> or
  \<open>"dark"\<close> provided that the value found in the storage at startup (when there is a
  non-empty one) and every argument of \<open>setTheme\<close> is one of the two. \<open>toggleTheme\<close>
  always leaves one of the two, and every public operation changes the theme through
  \<open>setTheme\<close>.
\<close>

theorem theme_two_valued:
  assumes "\<forall>v. localStorage p (storageKey (resolve_options g)) = Some v
             \<longrightarrow> v = [] \<or> v = ''light'' \<or> v = ''dark''"
      and "\<forall>t. SetTheme t \<in> set xs \<longrightarrow> t = ''light'' \<or> t = ''dark''"
  shows "(getTheme (theme_run xs (constructor g prefersDark p)) = ''light''
          \<or> getTheme (theme_run xs (constructor g prefersDark p)) = ''dark'')
         \<and> (\<forall>q. getTheme (toggleTheme q) = ''light'' \<or> getTheme (toggleTheme q) = ''dark'')
         \<and> (\<forall>x q. \<exists>t. theme_step x q = setTheme t q)"
proof -
  have a: "getTheme (theme_run xs (constructor g prefersDark p)) = ''light''
          \<or> getTheme (theme_run xs (constructor g prefersDark p)) = ''dark''"
    unfolding getTheme_def
    using constructor_two_valued [OF assms(1)] assms(2) by (rule theme_run_two_valued)
  have b: "\<forall>q. getTheme (toggleTheme q) = ''light'' \<or> getTheme (toggleTheme q) = ''dark''"
    by (simp add: getTheme_def currentTheme_toggleTheme)
  have c: "\<forall>x q. \<exists>t. theme_step x q = setTheme t q"
  proof (intro allI)
    fix x q show "\<exists>t. theme_step x q = setTheme t q"
      by (cases x) (auto simp add: toggleTheme_def Let_def)
  qed
  from a b c show ?thesis by blast
qed

theorem theme_two_valued_witness:
  "localStorage blank_page (storageKey (resolve_options default_options)) = None
   \<and> getTheme (theme_run [SetTheme ''dark'', ToggleTheme]
                 (constructor default_options True blank_page)) = ''light''"
proof -
  have h0: "localStorage blank_page (storageKey (resolve_options default_options)) = None"
    by (simp add: blank_page_def)
  then have h1: "\<forall>v. localStorage blank_page (storageKey (resolve_options default_options))
                    = Some v \<longrightarrow> v = [] \<or> v = ''light'' \<or> v = ''dark''"
    by simp
  have h2: "\<forall>t. SetTheme t \<in> set [SetTheme ''dark'', ToggleTheme]
             \<longrightarrow> t = ''light'' \<or> t = ''dark''"
    by simp
  have "getTheme (theme_run [SetTheme ''dark'', ToggleTheme]
                   (constructor default_options True blank_page)) = ''light''"
    using theme_two_valued [OF h1 h2, of True]
    by (simp add: getTheme_def toggleTheme_def Let_def)
  with h0 show ?thesis by blast
qed

section \<open>Properties of the document tree\<close>

lemma flatten_amap:
  "flatten up (amap f t) = map (\<lambda>(i, u, e). (i, u, f i e)) (flatten up t)"
proof (induction t arbitrary: up)
  case (Node i e ks)
  have *: "map (\<lambda>k. flatten (i # up) (amap f k)) ks
        = map (\<lambda>k. map (\<lambda>(i, u, e). (i, u, f i e)) (flatten (i # up) k)) ks"
    by (rule map_cong [OF refl]) (simp add: Node.IH)
  show ?case by (simp add: map_concat comp_def *)
qed

lemma amap_amap: "amap f (amap g t) = amap (\<lambda>i e. f i (g i e)) t"
  by (induction t) simp

lemma forEach_amap:
  assumes idem: "\<And>e. f (f e) = f e"
  shows "forEach ns f p =
         p\<lparr>doc := amap (\<lambda>i e. if i \<in> set ns then f e else e) (doc p),
           detached := map (amap (\<lambda>i e. if i \<in> set ns then f e else e)) (detached p)\<rparr>"
proof (induction ns arbitrary: p)
  case Nil
  have "amap (\<lambda>i e. e) t = t" for t by (induction t) (simp add: map_idI)
  then show ?case by (simp add: forEach_def)
next
  case (Cons n ns)
  have eq: "(\<lambda>i e. if i \<in> set ns then f (if i = n then f e else e)
                     else (if i = n then f e else e))
            = (\<lambda>i e. if i \<in> set (n # ns) then f e else e)"
    by (intro ext) (simp add: idem)
  have "forEach (n # ns) f p = forEach ns f (update_element n f p)"
    by (simp add: forEach_def)
  also have "\<dots> = p\<lparr>doc := amap (\<lambda>i e. if i \<in> set (n # ns) then f e else e) (doc p),
           detached := map (amap (\<lambda>i e. if i \<in> set (n # ns) then f e else e)) (detached p)\<rparr>"
    unfolding Cons.IH
    by (simp add: update_element_def amap_amap eq [simplified] comp_def)
  finally show ?case .
qed




section \<open>Properties of the dropdowns\<close>

lemma close_idem:
  "setAttribute ''aria-expanded'' ''false'' (classList_remove ''open''
     (setAttribute ''aria-expanded'' ''false'' (classList_remove ''open'' e)))
   = setAttribute ''aria-expanded'' ''false'' (classList_remove ''open'' e)"
  by (simp add: setAttribute_def classList_remove_def)

lemma doc_update_element:
  "doc (update_element n f p) = amap (\<lambda>i e. if i = n then f e else e) (doc p)"
  by (simp add: update_element_def)

lemma qsa_doc:
  "doc q = amap h (doc p) \<Longrightarrow>
   querySelectorAll sel q
     = map fst (filter (\<lambda>(i, u, e). matches sel (h i e)) (flatten [] (doc p)))"
  by (simp add: querySelectorAll_def flatten_amap filter_map comp_def case_prod_unfold)

lemma doc_ids_amap: "doc q = amap h (doc p) \<Longrightarrow> doc_ids q = doc_ids p"
  by (simp add: doc_ids_def flatten_amap comp_def case_prod_unfold)


lemma doc_closeAllDropdowns: "doc (closeAllDropdowns p) = amap (close_map p) (doc p)"
  unfolding closeAllDropdowns_def Let_def
  by (subst forEach_amap) (simp_all add: close_idem close_map_def [abs_def] open_dropdowns_def)

lemma close_map_not_open:
  assumes "(i, u, e) \<in> set (flatten [] (doc p))"
  shows "\<not> matches (HasAttrClass ''data-dropdown'' ''open'') (close_map p i e)"
proof (cases "i \<in> set (open_dropdowns p)")
  case True
  then show ?thesis
    by (simp add: close_map_def setAttribute_def classList_remove_def)
next
  case False
  then have "\<not> matches (HasAttrClass ''data-dropdown'' ''open'') e"
    using assms by (force simp add: open_dropdowns_def querySelectorAll_def)
  with False show ?thesis by (simp add: close_map_def)
qed

lemma open_dropdowns_closeAllDropdowns: "open_dropdowns (closeAllDropdowns p) = []"
proof -
  have "\<not> (case x of (i, u, e) \<Rightarrow>
              matches (HasAttrClass ''data-dropdown'' ''open'') (close_map p i e))"
    if "x \<in> set (flatten [] (doc p))" for x
    using that close_map_not_open [of "fst x" "fst (snd x)" "snd (snd x)" p]
    by (simp add: case_prod_unfold)
  then show ?thesis
    unfolding open_dropdowns_def qsa_doc [OF doc_closeAllDropdowns]
    by (simp add: filter_empty_conv)
qed





lemma doc_toggleDropdown: "doc (toggleDropdown d p) = amap (toggle_map d p) (doc p)"
proof (cases "opened d p")
  case True
  then obtain up e where l: "lookup d p = Some (up, e)" "\<not> classList_contains ''open'' e"
    by (auto simp add: opened_def split: option.splits)
  have "(\<lambda>i ea. if i = d
                 then setAttribute ''aria-expanded'' ''true''
                        (if i = d then classList_add ''open'' (close_map p i ea)
                         else close_map p i ea)
                 else if i = d then classList_add ''open'' (close_map p i ea)
                      else close_map p i ea) = toggle_map d p"
    by (intro ext) (simp add: toggle_map_def True)
  then show ?thesis
    by (simp add: toggleDropdown_def l Let_def doc_update_element doc_closeAllDropdowns
        amap_amap)
next
  case False
  have "toggle_map d p = close_map p"
    by (intro ext) (simp add: toggle_map_def False)
  then show ?thesis
    using False
    by (auto simp add: toggleDropdown_def opened_def Let_def doc_closeAllDropdowns
        split: option.splits)
qed

lemma close_map_attr [simp]:
  "attrs (close_map p i e) ''data-dropdown'' = attrs e ''data-dropdown''"
  by (simp add: close_map_def setAttribute_def classList_remove_def)

lemma toggle_map_matches:
  assumes "(i, u, e) \<in> set (flatten [] (doc p))"
  shows "matches (HasAttrClass ''data-dropdown'' ''open'') (toggle_map d p i e)
         = (opened d p \<and> i = d \<and> attrs e ''data-dropdown'' \<noteq> None)"
proof (cases "opened d p \<and> i = d")
  case True
  then show ?thesis
    by (simp add: toggle_map_def setAttribute_def classList_add_def)
next
  case False
  then show ?thesis
    using close_map_not_open [OF assms] by (auto simp add: toggle_map_def)
qed

lemma open_dropdowns_toggleDropdown:
  "open_dropdowns (toggleDropdown d p) =
     map fst (filter (\<lambda>(i, u, e). opened d p \<and> i = d \<and> attrs e ''data-dropdown'' \<noteq> None)
                (flatten [] (doc p)))"
proof -
  have "filter (\<lambda>(i, u, e). matches (HasAttrClass ''data-dropdown'' ''open'')
                              (toggle_map d p i e)) (flatten [] (doc p))
        = filter (\<lambda>(i, u, e). opened d p \<and> i = d \<and> attrs e ''data-dropdown'' \<noteq> None)
            (flatten [] (doc p))"
  proof (rule filter_cong [OF refl])
    fix x assume "x \<in> set (flatten [] (doc p))"
    then show "(case x of (i, u, e) \<Rightarrow>
                 matches (HasAttrClass ''data-dropdown'' ''open'') (toggle_map d p i e))
               = (case x of (i, u, e) \<Rightarrow>
                    opened d p \<and> i = d \<and> attrs e ''data-dropdown'' \<noteq> None)"
      using toggle_map_matches [of "fst x" "fst (snd x)" "snd (snd x)" p d]
      by (simp add: case_prod_unfold)
  qed
  then show ?thesis
    unfolding open_dropdowns_def qsa_doc [OF doc_toggleDropdown] by simp
qed

lemma doc_ids_toggleDropdown [simp]: "doc_ids (toggleDropdown d p) = doc_ids p"
  by (rule doc_ids_amap [OF doc_toggleDropdown])

lemma doc_ids_closeAllDropdowns [simp]: "doc_ids (closeAllDropdowns p) = doc_ids p"
  by (rule doc_ids_amap [OF doc_closeAllDropdowns])

lemma distinct_query:
  "distinct (doc_ids p) \<Longrightarrow> distinct (map fst (filter P (flatten [] (doc p))))"
  by (simp add: doc_ids_def distinct_map_filter)

lemma distinct_singleton:
  assumes "distinct xs" and "set xs \<subseteq> {d}"
  shows "length xs \<le> 1"
proof -
  have "card (set xs) \<le> card {d}"
    using assms(2) by (intro card_mono) simp_all
  then show ?thesis using assms(1) by (simp add: distinct_card)
qed

lemma open_dropdowns_subset: "set (open_dropdowns (toggleDropdown d p)) \<subseteq> {d}"
  by (auto simp add: open_dropdowns_toggleDropdown)

lemma distinct_open_dropdowns: "distinct (doc_ids p) \<Longrightarrow> distinct (open_dropdowns p)"
  unfolding open_dropdowns_def querySelectorAll_def by (rule distinct_query)

lemma open_dropdowns_length:
  assumes "distinct (doc_ids p)"
  shows "length (open_dropdowns (toggleDropdown d p)) \<le> 1"
proof -
  have "distinct (open_dropdowns (toggleDropdown d p))"
    by (rule distinct_open_dropdowns) (simp add: assms)
  then show ?thesis using open_dropdowns_subset by (rule distinct_singleton)
qed





lemma find_append_first:
  "\<exists>x\<in>set xs. P x \<Longrightarrow> \<exists>x. find P (xs @ ys) = Some x \<and> x \<in> set xs \<and> P x"
  by (induction xs) auto

lemma lookup_doc:
  assumes "b \<in> set (doc_ids p)"
  shows "\<exists>up e. lookup b p = Some (up, e) \<and> (b, up, e) \<in> set (flatten [] (doc p))"
proof -
  have "\<exists>x\<in>set (flatten [] (doc p)). (case x of (i, up, e) \<Rightarrow> i = b)"
    using assms by (force simp add: doc_ids_def)
  from find_append_first [OF this]
  obtain x where x: "find (\<lambda>(i, up, e). i = b) (entries p) = Some x"
    "x \<in> set (flatten [] (doc p))" "case x of (i, up, e) \<Rightarrow> i = b"
    unfolding entries_def by blast
  obtain i up e where "x = (i, up, e)" by (cases x)
  with x show ?thesis by (auto simp add: lookup_def)
qed

lemma distinct_entry_unique:
  assumes "distinct (doc_ids p)"
      and "(i, u, e) \<in> set (flatten [] (doc p))" and "(i, u', e') \<in> set (flatten [] (doc p))"
  shows "u = u' \<and> e = e'"
  using assms unfolding doc_ids_def
  by (metis eq_key_imp_eq_value prod.inject)

lemma opened_other:
  assumes d: "distinct (doc_ids p)" and ne: "a \<noteq> b"
      and b: "b \<in> set (querySelectorAll (HasAttr ''data-dropdown'') p)"
  shows "opened b (toggleDropdown a p)"
proof -
  from b obtain u e where e: "(b, u, e) \<in> set (flatten [] (doc p))"
      "attrs e ''data-dropdown'' \<noteq> None"
    by (auto simp add: querySelectorAll_def)
  have "b \<in> set (doc_ids p)"
    using e(1) by (force simp add: doc_ids_def)
  then have "b \<in> set (doc_ids (toggleDropdown a p))"
    by simp
  from lookup_doc [OF this] obtain u' e' where l: "lookup b (toggleDropdown a p) = Some (u', e')"
      "(b, u', e') \<in> set (flatten [] (doc (toggleDropdown a p)))"
    by blast
  from l(2) obtain e0 where e0: "(b, u', e0) \<in> set (flatten [] (doc p))"
      "e' = toggle_map a p b e0"
    by (auto simp add: doc_toggleDropdown flatten_amap)
  have "e0 = e" using distinct_entry_unique [OF d e0(1) e(1)] by simp
  have "\<not> matches (HasAttrClass ''data-dropdown'' ''open'') (toggle_map a p b e0)"
    using toggle_map_matches [OF e0(1), of a] ne by simp
  moreover have "attrs (toggle_map a p b e0) ''data-dropdown'' \<noteq> None"
    using e(2) \<open>e0 = e\<close> ne by (simp add: toggle_map_def)
  ultimately have "''open'' \<notin> set (classes e')" using e0(2) by simp
  then show ?thesis by (simp add: opened_def l(1) classList_contains_def)
qed

lemma distinct_set_singleton:
  assumes "distinct xs" and "set xs = {b}"
  shows "xs = [b]"
proof -
  have "length xs = 1" using assms by (metis distinct_card card_1_singleton_iff One_nat_def)
  then obtain x where "xs = [x]" by (cases xs) auto
  with assms(2) show ?thesis by simp
qed

lemma open_a_then_b:
  assumes d: "distinct (doc_ids p)" and ne: "a \<noteq> b"
      and b: "b \<in> set (querySelectorAll (HasAttr ''data-dropdown'') p)"
  shows "open_dropdowns (toggleDropdown b (toggleDropdown a p)) = [b]"
proof -
  let ?q = "toggleDropdown a p"
  have o: "opened b ?q" using d ne b by (rule opened_other)
  from b obtain u e where e: "(b, u, e) \<in> set (flatten [] (doc p))"
      "attrs e ''data-dropdown'' \<noteq> None"
    by (auto simp add: querySelectorAll_def)
  have "(b, u, toggle_map a p b e) \<in> set (flatten [] (doc ?q))"
    using e(1) by (force simp add: doc_toggleDropdown flatten_amap)
  moreover have "attrs (toggle_map a p b e) ''data-dropdown'' \<noteq> None"
    using e(2) ne by (simp add: toggle_map_def)
  ultimately have "b \<in> set (open_dropdowns (toggleDropdown b ?q))"
    using o by (force simp add: open_dropdowns_toggleDropdown)
  then have "set (open_dropdowns (toggleDropdown b ?q)) = {b}"
    using open_dropdowns_subset [of b ?q] by blast
  moreover have "distinct (open_dropdowns (toggleDropdown b ?q))"
    by (rule distinct_open_dropdowns) (simp add: d)
  ultimately show ?thesis by (intro distinct_set_singleton)
qed

lemma open_dropdowns_click:
  assumes "distinct (doc_ids p)"
  shows "length (open_dropdowns (dropdown_click target p)) \<le> 1"
  using open_dropdowns_length [OF assms]
  by (simp add: dropdown_click_def open_dropdowns_closeAllDropdowns split: option.splits)

section \<open>Properties of the tabs\<close>

lemma find_map_list: "find P (map f xs) = map_option f (find (\<lambda>x. P (f x)) xs)"
  by (induction xs) simp_all

lemma update_element_pmap:
  "update_element n f p = pmap (\<lambda>i e. if i = n then f e else e) p"
  by (simp add: update_element_def pmap_def)

lemma forEach_pmap:
  "(\<And>e. f (f e) = f e) \<Longrightarrow> forEach ns f p = pmap (\<lambda>i e. if i \<in> set ns then f e else e) p"
  by (simp add: forEach_amap pmap_def)

lemma pmap_pmap: "pmap f (pmap g p) = pmap (\<lambda>i e. f i (g i e)) p"
  by (simp add: pmap_def amap_amap comp_def)

lemma entries_pmap: "entries (pmap h p) = map (\<lambda>(i, u, e). (i, u, h i e)) (entries p)"
  by (simp add: entries_def pmap_def flatten_amap map_concat comp_def)

lemma doc_pmap [simp]: "doc (pmap h p) = amap h (doc p)"
  by (simp add: pmap_def)

lemma find_SomeD: "find P xs = Some x \<Longrightarrow> P x \<and> x \<in> set xs"
  by (induction xs) (auto split: if_splits)

lemma lookup_pmap: "lookup n (pmap h p) = map_option (\<lambda>(u, e). (u, h n e)) (lookup n p)"
proof -
  let ?P = "\<lambda>x. fst x = n"
  let ?g = "\<lambda>x. (fst x, fst (snd x), h (fst x) (snd (snd x)))"
  have "lookup n (pmap h p) = map_option snd (find ?P (map ?g (entries p)))"
    by (simp add: lookup_def entries_pmap case_prod_unfold)
  also have "\<dots> = map_option snd (map_option ?g (find ?P (entries p)))"
    by (simp add: find_map_list)
  also have "\<dots> = map_option (\<lambda>x. (fst x, h n (snd x))) (map_option snd (find ?P (entries p)))"
  proof (cases "find ?P (entries p)")
    case None
    then show ?thesis by simp
  next
    case (Some x)
    then have "fst x = n" by (auto dest: find_SomeD)
    with Some show ?thesis by simp
  qed
  finally show ?thesis by (simp add: lookup_def case_prod_unfold)
qed

lemma querySelectorAll_pmap:
  assumes "\<And>i e. matches sel (h i e) = matches sel e"
  shows "querySelectorAll sel (pmap h p) = querySelectorAll sel p"
  by (simp add: querySelectorAll_def flatten_amap filter_map comp_def case_prod_unfold assms)

lemma getElementById_pmap:
  assumes "\<And>i e. attrs (h i e) ''id'' = attrs e ''id''"
  shows "getElementById s (pmap h p) = getElementById s p"
  by (simp add: getElementById_def flatten_amap find_map_list case_prod_unfold assms
      option.map_comp comp_def)

lemma deactivate_idem: "deactivate (deactivate e) = deactivate e"
  by (simp add: deactivate_def setAttribute_def classList_remove_def)

lemma hide_idem: "hide (hide e) = hide e"
  by (simp add: hide_def setAttribute_def setStyle_def)

lemma switchTab_no_group:
  "closest (HasAttr ''data-tab-group'') t p = None \<Longrightarrow> switchTab t p = p"
  by (simp add: switchTab_def Let_def split: option.splits)

lemma switchTab_pmap:
  assumes l: "lookup t p = Some (ut, et)"
      and g: "closest (HasAttr ''data-tab-group'') t p = Some g"
  shows "switchTab t p
         = pmap (switch_map (group_tabs g p) t (tab_panels p) (target_panel t p)) p"
proof -
  let ?tabs = "element_querySelectorAll g (HasAttr ''data-tab'') p"
  let ?h3 = "\<lambda>i e. if i = t then setAttribute ''aria-selected'' ''true''
                        (if i = t then classList_add ''active''
                           (if i \<in> set ?tabs then deactivate e else e)
                         else (if i \<in> set ?tabs then deactivate e else e))
                      else (if i = t then classList_add ''active''
                           (if i \<in> set ?tabs then deactivate e else e)
                         else (if i \<in> set ?tabs then deactivate e else e))"
  let ?p1 = "forEach ?tabs deactivate p"
  let ?p3 = "update_element t (setAttribute ''aria-selected'' ''true'')
               (update_element t (classList_add ''active'') ?p1)"
  have p3: "?p3 = pmap ?h3 p"
    by (simp add: forEach_pmap deactivate_idem update_element_pmap pmap_pmap)
  have panels: "querySelectorAll (HasAttr ''data-tab-panel'') (pmap ?h3 p) = tab_panels p"
    unfolding tab_panels_def
    by (rule querySelectorAll_pmap)
       (simp add: deactivate_def setAttribute_def classList_remove_def classList_add_def)
  let ?panels = "tab_panels p"
  let ?h4 = "\<lambda>i e. if i \<in> set ?panels then hide (?h3 i e) else ?h3 i e"
  have p4: "forEach ?panels hide (pmap ?h3 p) = pmap ?h4 p"
    by (simp add: forEach_pmap hide_idem pmap_pmap)
  have tp: "getElementById s (pmap ?h4 p) = getElementById s p" for s
    by (rule getElementById_pmap)
       (simp add: deactivate_def hide_def setAttribute_def classList_remove_def
          classList_add_def setStyle_def)
  have sw: "switchTab t p =
        (case getElementById (js_string (getAttribute ''data-tab'' et)) p of
           None \<Rightarrow> pmap ?h4 p
         | Some tp \<Rightarrow> update_element tp (setAttribute ''aria-hidden'' ''false'')
                        (update_element tp (setStyle ''display'' ''block'') (pmap ?h4 p)))"
    unfolding switchTab_def l g Let_def option.case prod.case
    unfolding deactivate_def [symmetric] hide_def [symmetric]
    unfolding p3 panels p4 tp ..
  have tgt: "target_panel t p = getElementById (js_string (getAttribute ''data-tab'' et)) p"
    by (simp add: target_panel_def l)
  show ?thesis
  proof (cases "target_panel t p")
    case None
    have "?h4 = switch_map (group_tabs g p) t (tab_panels p) None"
      by (intro ext)
         (simp add: switch_map_def group_tabs_def deactivate_def hide_def Let_def)
    then show ?thesis using None sw tgt by simp
  next
    case (Some tp)
    have "(\<lambda>i e. if i = tp then setAttribute ''aria-hidden'' ''false''
                      (if i = tp then setStyle ''display'' ''block'' (?h4 i e) else ?h4 i e)
                    else (if i = tp then setStyle ''display'' ''block'' (?h4 i e) else ?h4 i e))
          = switch_map (group_tabs g p) t (tab_panels p) (Some tp)"
      by (intro ext)
         (simp add: switch_map_def group_tabs_def deactivate_def hide_def Let_def)
    then show ?thesis using Some sw tgt
      by (simp add: update_element_pmap pmap_pmap)
  qed
qed

lemmas tabs_page_eval = tabs_page_def blank_page_def plain_def lookup_def entries_def
  closest_def element_at_def querySelectorAll_def element_querySelectorAll_def
  getElementById_def js_string_def getAttribute_def getStyle_def group_tabs_def
  tab_panels_def target_panel_def classList_contains_def

lemma switch_map_tab:
  "classList_contains ''active'' (switch_map tabs tab panels tp tab e)
   \<and> getAttribute ''aria-selected'' (switch_map tabs tab panels tp tab e) = Some ''true''"
  by (simp add: switch_map_def Let_def classList_contains_def getAttribute_def
      setAttribute_def setStyle_def classList_add_def classList_remove_def)

lemma switch_map_other_tab:
  "i \<in> set tabs \<Longrightarrow> i \<noteq> tab \<Longrightarrow>
   \<not> classList_contains ''active'' (switch_map tabs tab panels tp i e)
   \<and> getAttribute ''aria-selected'' (switch_map tabs tab panels tp i e) = Some ''false''"
  by (simp add: switch_map_def Let_def classList_contains_def getAttribute_def
      setAttribute_def setStyle_def classList_remove_def)

lemma switch_map_target:
  "getStyle ''display'' (switch_map tabs tab panels (Some i) i e) = ''block''
   \<and> getAttribute ''aria-hidden'' (switch_map tabs tab panels (Some i) i e) = Some ''false''"
  by (simp add: switch_map_def Let_def getStyle_def getAttribute_def setAttribute_def
      setStyle_def)

lemma switch_map_panel:
  "i \<in> set panels \<Longrightarrow> tp \<noteq> Some i \<Longrightarrow>
   getStyle ''display'' (switch_map tabs tab panels tp i e) = ''none''
   \<and> getAttribute ''aria-hidden'' (switch_map tabs tab panels tp i e) = Some ''true''"
  by (simp add: switch_map_def Let_def getStyle_def getAttribute_def setAttribute_def
      setStyle_def)

lemma switch_map_rest:
  "i \<noteq> tab \<Longrightarrow> i \<notin> set tabs \<Longrightarrow> i \<notin> set panels \<Longrightarrow> tp \<noteq> Some i \<Longrightarrow>
   switch_map tabs tab panels tp i e = e"
  by (simp add: switch_map_def Let_def)

text \<open>
  C5, as stated, fails: \<open>switchTab\<close> hides every element of the document that has the
  attribute \<open>data-tab-panel\<close>, not only those of the tab's group. On the example page,
  switching to the tab 12 of the first group (element 10) hides the panel 22, which is
  visible and belongs to the second group (element 20).
\<close>

theorem switchTab_other_group_counterexample:
  "closest (HasAttr ''data-tab-group'') 12 tabs_page = Some 10
   \<and> closest (HasAttr ''data-tab-group'') 22 tabs_page = Some 20
   \<and> map_option (getStyle ''display'') (element_at 22 tabs_page) = Some ''block''
   \<and> map_option (getStyle ''display'') (element_at 22 (switchTab 12 tabs_page)) = Some ''none''
   \<and> map_option (getAttribute ''aria-hidden'') (element_at 22 (switchTab 12 tabs_page))
       = Some (Some ''true'')"
proof -
  have g: "closest (HasAttr ''data-tab-group'') 12 tabs_page = Some 10"
    by (simp add: tabs_page_eval)
  have g': "closest (HasAttr ''data-tab-group'') 22 tabs_page = Some 20"
    by (simp add: tabs_page_eval)
  have b: "map_option (getStyle ''display'') (element_at 22 tabs_page) = Some ''block''"
    by (simp add: tabs_page_eval)
  have "\<exists>u e. lookup 12 tabs_page = Some (u, e)"
    by (simp add: tabs_page_eval)
  then obtain u e where l: "lookup 12 tabs_page = Some (u, e)" by blast
  have tabs: "group_tabs 10 tabs_page = [11, 12, 15]"
    and panels: "tab_panels tabs_page = [13, 14, 22]"
    and tp: "target_panel 12 tabs_page = Some 14"
    by (simp_all add: tabs_page_eval)
  have "map_option (getStyle ''display'') (element_at 22 (switchTab 12 tabs_page)) = Some ''none''
        \<and> map_option (getAttribute ''aria-hidden'') (element_at 22 (switchTab 12 tabs_page))
            = Some (Some ''true'')"
    unfolding switchTab_pmap [OF l g] element_at_def lookup_pmap tabs panels tp
    by (simp add: tabs_page_eval switch_map_def setAttribute_def setStyle_def)
  with g g' b show ?thesis by blast
qed

text \<open>
  C5, amended. For a tab \<open>tab\<close> with an enclosing group \<open>g\<close>, \<open>switchTab(tab)\<close>
  leaves every element \<open>i\<close> of the page in its place and writes it as follows: the
  clicked tab has the class \<open>active\<close> and \<open>aria-selected = "true"\<close>; every other
  \<open>[data-tab]\<close> descendant of the group has lost \<open>active\<close> and has
  \<open>aria-selected = "false"\<close>; the first element of the document whose id is the tab's
  \<open>data-tab\<close> value, when there is one, has \<open>display: block\<close> and
  \<open>aria-hidden = "false"\<close>; every other \<open>[data-tab-panel]\<close> element of the whole
  document (inside the group or not) has \<open>display: none\<close> and \<open>aria-hidden = "true"\<close>;
  every element that is none of these is unchanged.
\<close>

theorem switchTab_effect:
  assumes "lookup tab p = Some (ut, et)"
      and "closest (HasAttr ''data-tab-group'') tab p = Some g"
      and "lookup i p = Some (u, e)"
  shows "\<exists>e'. lookup i (switchTab tab p) = Some (u, e')
          \<and> (i = tab \<longrightarrow> classList_contains ''active'' e'
                \<and> getAttribute ''aria-selected'' e' = Some ''true'')
          \<and> (i \<in> set (group_tabs g p) \<and> i \<noteq> tab \<longrightarrow> \<not> classList_contains ''active'' e'
                \<and> getAttribute ''aria-selected'' e' = Some ''false'')
          \<and> (target_panel tab p = Some i \<longrightarrow> getStyle ''display'' e' = ''block''
                \<and> getAttribute ''aria-hidden'' e' = Some ''false'')
          \<and> (i \<in> set (tab_panels p) \<and> target_panel tab p \<noteq> Some i \<longrightarrow>
                getStyle ''display'' e' = ''none''
                \<and> getAttribute ''aria-hidden'' e' = Some ''true'')
          \<and> (i \<noteq> tab \<and> i \<notin> set (group_tabs g p) \<and> i \<notin> set (tab_panels p)
                \<and> target_panel tab p \<noteq> Some i \<longrightarrow> e' = e)"
proof -
  let ?e' = "switch_map (group_tabs g p) tab (tab_panels p) (target_panel tab p) i e"
  have "lookup i (switchTab tab p) = Some (u, ?e')"
    by (simp add: switchTab_pmap [OF assms(1,2)] lookup_pmap assms(3))
  moreover have "i = tab \<longrightarrow> classList_contains ''active'' ?e'
                \<and> getAttribute ''aria-selected'' ?e' = Some ''true''"
    using switch_map_tab by blast
  moreover have "i \<in> set (group_tabs g p) \<and> i \<noteq> tab \<longrightarrow> \<not> classList_contains ''active'' ?e'
                \<and> getAttribute ''aria-selected'' ?e' = Some ''false''"
    using switch_map_other_tab by blast
  moreover have "target_panel tab p = Some i \<longrightarrow> getStyle ''display'' ?e' = ''block''
                \<and> getAttribute ''aria-hidden'' ?e' = Some ''false''"
    using switch_map_target by simp
  moreover have "i \<in> set (tab_panels p) \<and> target_panel tab p \<noteq> Some i \<longrightarrow>
                getStyle ''display'' ?e' = ''none''
                \<and> getAttribute ''aria-hidden'' ?e' = Some ''true''"
    using switch_map_panel by blast
  moreover have "i \<noteq> tab \<and> i \<notin> set (group_tabs g p) \<and> i \<notin> set (tab_panels p)
                \<and> target_panel tab p \<noteq> Some i \<longrightarrow> ?e' = e"
    using switch_map_rest by blast
  ultimately show ?thesis by blast
qed

theorem switchTab_effect_witness:
  "closest (HasAttr ''data-tab-group'') 12 tabs_page = Some 10
   \<and> group_tabs 10 tabs_page = [11, 12, 15]
   \<and> tab_panels tabs_page = [13, 14, 22]
   \<and> target_panel 12 tabs_page = Some 14
   \<and> map_option (classList_contains ''active'') (element_at 11 tabs_page) = Some True
   \<and> (\<exists>u e'. lookup 11 (switchTab 12 tabs_page) = Some (u, e')
        \<and> \<not> classList_contains ''active'' e'
        \<and> getAttribute ''aria-selected'' e' = Some ''false'')"
proof -
  have g: "closest (HasAttr ''data-tab-group'') 12 tabs_page = Some 10"
    by (simp add: tabs_page_eval)
  have "\<exists>u e. lookup 12 tabs_page = Some (u, e)"
    by (simp add: tabs_page_eval)
  then obtain ut et where l: "lookup 12 tabs_page = Some (ut, et)" by blast
  have "\<exists>u e. lookup 11 tabs_page = Some (u, e)"
    by (simp add: tabs_page_eval)
  then obtain u e where i: "lookup 11 tabs_page = Some (u, e)" by blast
  have tabs: "group_tabs 10 tabs_page = [11, 12, 15]"
    and panels: "tab_panels tabs_page = [13, 14, 22]"
    and tp: "target_panel 12 tabs_page = Some 14"
    and a: "map_option (classList_contains ''active'') (element_at 11 tabs_page) = Some True"
    by (simp_all add: tabs_page_eval)
  from switchTab_effect [OF l g i] tabs
  have "\<exists>u e'. lookup 11 (switchTab 12 tabs_page) = Some (u, e')
        \<and> \<not> classList_contains ''active'' e'
        \<and> getAttribute ''aria-selected'' e' = Some ''false''"
    by auto
  with g tabs panels tp a show ?thesis by blast
qed

section \<open>Properties of unresolved targets\<close>

lemma collapse_click_unresolved:
  assumes "closest (HasAttr ''data-collapse-toggle'') target p = Some toggle"
      and "lookup toggle p = Some (u, e)"
      and "getElementById (js_string (getAttribute ''data-collapse-toggle'' e)) p = None"
  shows "collapse_click target p = p"
  using assms by (simp add: collapse_click_def Let_def)

lemma tab_click_no_group:
  assumes "closest (HasAttr ''data-tab'') target p = Some tab"
      and "closest (HasAttr ''data-tab-group'') tab p = None"
  shows "tab_click target p = p"
  using assms by (simp add: tab_click_def switchTab_no_group)

lemma switchTab_unknown_panel:
  assumes "lookup tab p = Some (ut, et)"
      and "closest (HasAttr ''data-tab-group'') tab p = Some g"
      and "target_panel tab p = None"
      and "lookup i p = Some (u, e)"
  shows "\<exists>e'. lookup i (switchTab tab p) = Some (u, e')
          \<and> (i = tab \<longrightarrow> classList_contains ''active'' e'
                \<and> getAttribute ''aria-selected'' e' = Some ''true'')
          \<and> (i \<in> set (group_tabs g p) \<and> i \<noteq> tab \<longrightarrow> \<not> classList_contains ''active'' e'
                \<and> getAttribute ''aria-selected'' e' = Some ''false'')
          \<and> (i \<in> set (tab_panels p) \<longrightarrow> getStyle ''display'' e' = ''none''
                \<and> getAttribute ''aria-hidden'' e' = Some ''true'')"
proof -
  let ?e' = "switch_map (group_tabs g p) tab (tab_panels p) None i e"
  have "lookup i (switchTab tab p) = Some (u, ?e')"
    by (simp add: switchTab_pmap [OF assms(1,2)] lookup_pmap assms(3,4))
  moreover have "i = tab \<longrightarrow> classList_contains ''active'' ?e'
                \<and> getAttribute ''aria-selected'' ?e' = Some ''true''"
    using switch_map_tab by blast
  moreover have "i \<in> set (group_tabs g p) \<and> i \<noteq> tab \<longrightarrow> \<not> classList_contains ''active'' ?e'
                \<and> getAttribute ''aria-selected'' ?e' = Some ''false''"
    using switch_map_other_tab by blast
  moreover have "i \<in> set (tab_panels p) \<longrightarrow> getStyle ''display'' ?e' = ''none''
                \<and> getAttribute ''aria-hidden'' ?e' = Some ''true''"
    using switch_map_panel [of i "tab_panels p" None] by blast
  ultimately show ?thesis by blast
qed

text \<open>
  C9, as stated, fails for a tab whose panel id is unknown: \<open>switchTab\<close> returns early
  only when the tab has no enclosing group. With a group and an unknown panel id it
  still deactivates the group's tabs, activates the clicked tab and hides every panel.
  On the example page the tab 15 names the panel \<open>"missing"\<close>; switching to it hides
  the visible panel 13 and moves the class \<open>active\<close> from the tab 11 to the tab 15.
\<close>

theorem unknown_panel_not_noop_counterexample:
  "closest (HasAttr ''data-tab-group'') 15 tabs_page = Some 10
   \<and> target_panel 15 tabs_page = None
   \<and> map_option (getStyle ''display'') (element_at 13 tabs_page) = Some ''block''
   \<and> map_option (getStyle ''display'') (element_at 13 (switchTab 15 tabs_page)) = Some ''none''
   \<and> map_option (classList_contains ''active'') (element_at 15 tabs_page) = Some False
   \<and> map_option (classList_contains ''active'') (element_at 15 (switchTab 15 tabs_page))
       = Some True
   \<and> switchTab 15 tabs_page \<noteq> tabs_page"
proof -
  have g: "closest (HasAttr ''data-tab-group'') 15 tabs_page = Some 10"
    and tp: "target_panel 15 tabs_page = None"
    and b: "map_option (getStyle ''display'') (element_at 13 tabs_page) = Some ''block''"
    and a: "map_option (classList_contains ''active'') (element_at 15 tabs_page) = Some False"
    and tabs: "group_tabs 10 tabs_page = [11, 12, 15]"
    and panels: "tab_panels tabs_page = [13, 14, 22]"
    by (simp_all add: tabs_page_eval)
  have "\<exists>u e. lookup 15 tabs_page = Some (u, e)"
    by (simp add: tabs_page_eval)
  then obtain u e where l: "lookup 15 tabs_page = Some (u, e)" by blast
  have n: "map_option (getStyle ''display'') (element_at 13 (switchTab 15 tabs_page))
           = Some ''none''"
    unfolding switchTab_pmap [OF l g] element_at_def lookup_pmap tabs panels tp
    by (simp add: tabs_page_eval switch_map_def setAttribute_def setStyle_def)
  have c: "map_option (classList_contains ''active'') (element_at 15 (switchTab 15 tabs_page))
           = Some True"
    unfolding switchTab_pmap [OF l g] element_at_def lookup_pmap tabs panels tp
    by (simp add: tabs_page_eval switch_map_def setAttribute_def setStyle_def
        classList_add_def classList_remove_def)
  from b n have "switchTab 15 tabs_page \<noteq> tabs_page" by auto
  with g tp b n a c show ?thesis by blast
qed

text \<open>
  C9, amended. The listener of the collapse toggles, run on a click in a toggle whose
  target id names no element of the document, leaves the page as it is. \<open>switchTab\<close> on
  a tab without an enclosing group leaves the page as it is, and so does the listener of
  the tabs, run on a click in such a tab. (This is said of these listeners, not of all
  that a click does: the same click also runs the dropdown listener, which closes the
  open dropdowns.) \<open>switchTab\<close> on a tab with a group and an unknown panel id is not
  ignored: every element stays in its place, the clicked tab
  becomes the active one of its group, every \<open>[data-tab-panel]\<close> element of the document is
  hidden, and no panel is shown. None of the three has an error result.
\<close>

theorem unresolved_targets:
  "(closest (HasAttr ''data-collapse-toggle'') target p = Some toggle
      \<and> lookup toggle p = Some (u, e)
      \<and> getElementById (js_string (getAttribute ''data-collapse-toggle'' e)) p = None
      \<longrightarrow> collapse_click target p = p)
   \<and> (closest (HasAttr ''data-tab-group'') tab p = None \<longrightarrow> switchTab tab p = p)
   \<and> (closest (HasAttr ''data-tab'') target p = Some tab
        \<and> closest (HasAttr ''data-tab-group'') tab p = None \<longrightarrow> tab_click target p = p)
   \<and> (lookup tab p = Some (ut, et) \<and> closest (HasAttr ''data-tab-group'') tab p = Some g
        \<and> target_panel tab p = None \<and> lookup i p = Some (ui, ei)
        \<longrightarrow> (\<exists>e'. lookup i (switchTab tab p) = Some (ui, e')
              \<and> (i = tab \<longrightarrow> classList_contains ''active'' e'
                    \<and> getAttribute ''aria-selected'' e' = Some ''true'')
              \<and> (i \<in> set (group_tabs g p) \<and> i \<noteq> tab \<longrightarrow> \<not> classList_contains ''active'' e'
                    \<and> getAttribute ''aria-selected'' e' = Some ''false'')
              \<and> (i \<in> set (tab_panels p) \<longrightarrow> getStyle ''display'' e' = ''none''
                    \<and> getAttribute ''aria-hidden'' e' = Some ''true'')))"
proof -
  have a: "closest (HasAttr ''data-collapse-toggle'') target p = Some toggle
      \<and> lookup toggle p = Some (u, e)
      \<and> getElementById (js_string (getAttribute ''data-collapse-toggle'' e)) p = None
      \<longrightarrow> collapse_click target p = p"
    using collapse_click_unresolved by blast
  have b: "closest (HasAttr ''data-tab-group'') tab p = None \<longrightarrow> switchTab tab p = p"
    using switchTab_no_group by blast
  have c: "closest (HasAttr ''data-tab'') target p = Some tab
        \<and> closest (HasAttr ''data-tab-group'') tab p = None \<longrightarrow> tab_click target p = p"
    using tab_click_no_group by blast
  have d: "lookup tab p = Some (ut, et) \<and> closest (HasAttr ''data-tab-group'') tab p = Some g
        \<and> target_panel tab p = None \<and> lookup i p = Some (ui, ei)
        \<longrightarrow> (\<exists>e'. lookup i (switchTab tab p) = Some (ui, e')
              \<and> (i = tab \<longrightarrow> classList_contains ''active'' e'
                    \<and> getAttribute ''aria-selected'' e' = Some ''true'')
              \<and> (i \<in> set (group_tabs g p) \<and> i \<noteq> tab \<longrightarrow> \<not> classList_contains ''active'' e'
                    \<and> getAttribute ''aria-selected'' e' = Some ''false'')
              \<and> (i \<in> set (tab_panels p) \<longrightarrow> getStyle ''display'' e' = ''none''
                    \<and> getAttribute ''aria-hidden'' e' = Some ''true''))"
    using switchTab_unknown_panel by blast
  from a b c d show ?thesis by blast
qed

theorem unresolved_targets_witness:
  "closest (HasAttr ''data-collapse-toggle'') 34 tabs_page = Some 31
   \<and> map_option (getAttribute ''data-collapse-toggle'') (element_at 31 tabs_page)
       = Some (Some ''nothing'')
   \<and> getElementById ''nothing'' tabs_page = None
   \<and> collapse_click 34 tabs_page = tabs_page
   \<and> closest (HasAttr ''data-tab'') 30 tabs_page = Some 30
   \<and> closest (HasAttr ''data-tab-group'') 30 tabs_page = None
   \<and> switchTab 30 tabs_page = tabs_page
   \<and> tab_click 30 tabs_page = tabs_page
   \<and> closest (HasAttr ''data-tab-group'') 15 tabs_page = Some 10
   \<and> target_panel 15 tabs_page = None
   \<and> tab_panels tabs_page = [13, 14, 22]
   \<and> (\<exists>u e'. lookup 13 (switchTab 15 tabs_page) = Some (u, e')
         \<and> getStyle ''display'' e' = ''none'')"
proof -
  have c1: "closest (HasAttr ''data-collapse-toggle'') 34 tabs_page = Some 31"
    and c2: "map_option (getAttribute ''data-collapse-toggle'') (element_at 31 tabs_page)
              = Some (Some ''nothing'')"
    and c3: "getElementById ''nothing'' tabs_page = None"
    and t1: "closest (HasAttr ''data-tab'') 30 tabs_page = Some 30"
    and t2: "closest (HasAttr ''data-tab-group'') 30 tabs_page = None"
    and g: "closest (HasAttr ''data-tab-group'') 15 tabs_page = Some 10"
    and tp: "target_panel 15 tabs_page = None"
    and panels: "tab_panels tabs_page = [13, 14, 22]"
    by (simp_all add: tabs_page_eval)
  from c2 obtain u e where l31: "lookup 31 tabs_page = Some (u, e)"
      and e31: "getAttribute ''data-collapse-toggle'' e = Some ''nothing''"
    by (auto simp add: element_at_def)
  have "\<exists>u e. lookup 15 tabs_page = Some (u, e)" by (simp add: tabs_page_eval)
  then obtain ut et where l15: "lookup 15 tabs_page = Some (ut, et)" by blast
  have "\<exists>u e. lookup 13 tabs_page = Some (u, e)" by (simp add: tabs_page_eval)
  then obtain ui ei where l13: "lookup 13 tabs_page = Some (ui, ei)" by blast
  have c3': "getElementById (js_string (getAttribute ''data-collapse-toggle'' e)) tabs_page
             = None"
    using c3 e31 by (simp add: js_string_def)
  have r1: "collapse_click 34 tabs_page = tabs_page"
    using unresolved_targets [where target = 34 and p = tabs_page and toggle = 31
        and u = u and e = e] c1 l31 c3'
    by blast
  have r2: "switchTab 30 tabs_page = tabs_page"
    using unresolved_targets [where p = tabs_page and tab = 30] t2 by blast
  have r3: "tab_click 30 tabs_page = tabs_page"
    using unresolved_targets [where target = 30 and p = tabs_page and tab = 30] t1 t2
    by blast
  have "\<exists>e'. lookup 13 (switchTab 15 tabs_page) = Some (ui, e')
         \<and> (13 \<in> set (tab_panels tabs_page) \<longrightarrow> getStyle ''display'' e' = ''none''
              \<and> getAttribute ''aria-hidden'' e' = Some ''true'')"
    using unresolved_targets [where p = tabs_page and tab = 15 and ut = ut and et = et
        and g = 10 and i = 13 and ui = ui and ei = ei] l15 g tp l13
    by blast
  then have r4: "\<exists>u e'. lookup 13 (switchTab 15 tabs_page) = Some (u, e')
         \<and> getStyle ''display'' e' = ''none''"
    using panels by auto
  from c1 c2 c3 r1 t1 t2 r2 r3 g tp panels r4 show ?thesis by blast
qed

section \<open>Properties of a click\<close>

subsection \<open>What the other listeners leave alone\<close>

lemma dropdown_bits_kept:
  "dropdown_bits (setStyle k v e) = dropdown_bits e"
  "k \<noteq> ''data-dropdown'' \<Longrightarrow> dropdown_bits (setAttribute k v e) = dropdown_bits e"
  "c \<noteq> ''open'' \<Longrightarrow> dropdown_bits (classList_add c e) = dropdown_bits e"
  "c \<noteq> ''open'' \<Longrightarrow> dropdown_bits (classList_remove c e) = dropdown_bits e"
  by (auto simp add: dropdown_bits_def setStyle_def setAttribute_def classList_add_def
      classList_remove_def)

lemma dropdown_view_pmap:
  "dropdown_view (pmap h p)
   = (map (\<lambda>(i, u, e). (i, u, dropdown_bits (h i e))) (flatten [] (doc p)),
      map (\<lambda>(i, u, e). (i, u, dropdown_bits (h i e)))
        (concat (map (flatten []) (detached p))))"
  by (simp add: dropdown_view_def pmap_def flatten_amap map_concat comp_def case_prod_unfold)

lemma dropdown_view_kept:
  "(\<And>i e. dropdown_bits (h i e) = dropdown_bits e) \<Longrightarrow> dropdown_view (pmap h p) = dropdown_view p"
  unfolding dropdown_view_pmap by (simp add: dropdown_view_def)

lemma dropdown_view_update_element:
  "(\<And>e. dropdown_bits (f e) = dropdown_bits e)
   \<Longrightarrow> dropdown_view (update_element n f p) = dropdown_view p"
  by (simp add: update_element_pmap dropdown_view_kept)

lemma dropdown_view_forEach:
  assumes "\<And>e. dropdown_bits (f e) = dropdown_bits e"
  shows "dropdown_view (forEach ns f p) = dropdown_view p"
proof (induction ns arbitrary: p)
  case Nil
  then show ?case by (simp add: forEach_def)
next
  case (Cons n ns)
  have "forEach (n # ns) f p = forEach ns f (update_element n f p)"
    by (simp add: forEach_def)
  then show ?case by (simp add: Cons.IH dropdown_view_update_element assms)
qed

lemma dropdown_view_setTimeout: "dropdown_view (setTimeout a ms p) = dropdown_view p"
  by (simp add: dropdown_view_def setTimeout_def)

lemma dropdown_view_dismissAlert: "dropdown_view (dismissAlert a p) = dropdown_view p"
  by (simp add: dismissAlert_def Let_def dropdown_view_setTimeout
      dropdown_view_update_element dropdown_bits_kept)

lemma dropdown_view_alert_click: "dropdown_view (alert_click t p) = dropdown_view p"
  by (simp add: alert_click_def dropdown_view_dismissAlert split: option.splits)

lemma dropdown_view_toggleCollapse: "dropdown_view (toggleCollapse n p) = dropdown_view p"
proof (cases "lookup n p")
  case None
  then show ?thesis by (simp add: toggleCollapse_def)
next
  case (Some x)
  obtain up e where "x = (up, e)" by (cases x)
  with Some show ?thesis
    by (simp add: toggleCollapse_def Let_def dropdown_view_setTimeout
        dropdown_view_update_element dropdown_bits_kept)
qed

lemma dropdown_view_collapse_click: "dropdown_view (collapse_click t p) = dropdown_view p"
  by (simp add: collapse_click_def Let_def dropdown_view_toggleCollapse
      split: option.splits prod.splits)

lemma dropdown_view_switchTab: "dropdown_view (switchTab n p) = dropdown_view p"
proof (cases "lookup n p")
  case None
  then show ?thesis by (simp add: switchTab_def)
next
  case (Some x)
  obtain up e where "x = (up, e)" by (cases x)
  with Some show ?thesis
    by (simp add: switchTab_def Let_def dropdown_view_forEach
        dropdown_view_update_element dropdown_bits_kept split: option.splits)
qed

lemma dropdown_view_tab_click: "dropdown_view (tab_click t p) = dropdown_view p"
  by (simp add: tab_click_def dropdown_view_switchTab split: option.splits)

subsection \<open>What the dropdown listener reads\<close>

lemma entries_dropdown_view:
  "fst (dropdown_view p) @ snd (dropdown_view p)
   = map (\<lambda>(i, u, e). (i, u, dropdown_bits e)) (entries p)"
  by (simp add: dropdown_view_def entries_def)

lemma lookup_dropdown_view:
  "map_option (\<lambda>(u, e). (u, dropdown_bits e)) (lookup n p)
   = map_option snd (find (\<lambda>x. fst x = n) (fst (dropdown_view p) @ snd (dropdown_view p)))"
  unfolding entries_dropdown_view
  by (simp add: lookup_def find_map_list case_prod_unfold option.map_comp comp_def)

lemma closest_dropdown_view:
  "closest (HasAttr ''data-dropdown'') t p =
     (case map_option (\<lambda>(u, e). (u, dropdown_bits e)) (lookup t p) of
        None \<Rightarrow> None
      | Some (up, b) \<Rightarrow>
          find (\<lambda>a. case map_option (\<lambda>(u, e). (u, dropdown_bits e)) (lookup a p) of
                      None \<Rightarrow> False | Some (ua, ba) \<Rightarrow> fst ba) (t # up))"
proof -
  have "(\<lambda>a. case lookup a p of None \<Rightarrow> False
              | Some (ua, ea) \<Rightarrow> matches (HasAttr ''data-dropdown'') ea)
        = (\<lambda>a. case map_option (\<lambda>(u, e). (u, dropdown_bits e)) (lookup a p) of
                  None \<Rightarrow> False | Some (ua, ba) \<Rightarrow> fst ba)"
    by (intro ext) (simp add: dropdown_bits_def split: option.splits)
  then show ?thesis
    by (simp add: closest_def split: option.splits)
qed

lemma closest_dropdown_cong:
  assumes "dropdown_view q = dropdown_view p"
  shows "closest (HasAttr ''data-dropdown'') t q = closest (HasAttr ''data-dropdown'') t p"
  unfolding closest_dropdown_view lookup_dropdown_view assms ..

lemma opened_dropdown_view:
  "opened d p = (case map_option (\<lambda>(u, e). (u, dropdown_bits e)) (lookup d p) of
                   None \<Rightarrow> False | Some (u, b) \<Rightarrow> \<not> snd b)"
  by (simp add: opened_def dropdown_bits_def classList_contains_def split: option.splits)

lemma opened_cong:
  assumes "dropdown_view q = dropdown_view p"
  shows "opened d q = opened d p"
  unfolding opened_dropdown_view lookup_dropdown_view assms ..

lemma open_dropdowns_view:
  "open_dropdowns p = map fst (filter (\<lambda>(i, u, b). fst b \<and> snd b) (fst (dropdown_view p)))"
  by (simp add: open_dropdowns_def querySelectorAll_def dropdown_view_def filter_map comp_def
      case_prod_unfold dropdown_bits_def)

lemma open_dropdowns_cong:
  "dropdown_view q = dropdown_view p \<Longrightarrow> open_dropdowns q = open_dropdowns p"
  by (simp add: open_dropdowns_view)

lemma dropdowns_view:
  "querySelectorAll (HasAttr ''data-dropdown'') p
   = map fst (filter (\<lambda>(i, u, b). fst b) (fst (dropdown_view p)))"
  by (simp add: querySelectorAll_def dropdown_view_def filter_map comp_def
      case_prod_unfold dropdown_bits_def)

lemma dropdowns_cong:
  "dropdown_view q = dropdown_view p
   \<Longrightarrow> querySelectorAll (HasAttr ''data-dropdown'') q
       = querySelectorAll (HasAttr ''data-dropdown'') p"
  by (simp add: dropdowns_view)

lemma doc_ids_view: "doc_ids p = map fst (fst (dropdown_view p))"
  by (simp add: doc_ids_def dropdown_view_def comp_def case_prod_unfold)

lemma doc_ids_cong: "dropdown_view q = dropdown_view p \<Longrightarrow> doc_ids q = doc_ids p"
  by (simp add: doc_ids_view)

subsection \<open>What the dropdown listener writes\<close>

lemma closeAllDropdowns_pmap: "closeAllDropdowns p = pmap (close_map p) p"
  unfolding closeAllDropdowns_def Let_def
  by (subst forEach_pmap) (simp_all add: close_idem close_map_def [abs_def] open_dropdowns_def)

lemma toggleDropdown_pmap: "toggleDropdown d p = pmap (toggle_map d p) p"
proof (cases "opened d p")
  case True
  then obtain up e where l: "lookup d p = Some (up, e)" "\<not> classList_contains ''open'' e"
    by (auto simp add: opened_def split: option.splits)
  have "(\<lambda>i ea. if i = d
                 then setAttribute ''aria-expanded'' ''true''
                        (if i = d then classList_add ''open'' (close_map p i ea)
                         else close_map p i ea)
                 else if i = d then classList_add ''open'' (close_map p i ea)
                      else close_map p i ea) = toggle_map d p"
    by (intro ext) (simp add: toggle_map_def True)
  then show ?thesis
    by (simp add: toggleDropdown_def l Let_def update_element_pmap closeAllDropdowns_pmap
        pmap_pmap)
next
  case False
  have "toggle_map d p = close_map p"
    by (intro ext) (simp add: toggle_map_def False)
  then show ?thesis
    using False
    by (auto simp add: toggleDropdown_def opened_def Let_def closeAllDropdowns_pmap
        split: option.splits)
qed

lemma dropdown_bits_close_map:
  "dropdown_bits (close_map p i e)
   = (fst (dropdown_bits e), i \<notin> set (open_dropdowns p) \<and> snd (dropdown_bits e))"
  by (simp add: close_map_def dropdown_bits_def setAttribute_def classList_remove_def)

lemma dropdown_bits_toggle_map:
  "dropdown_bits (toggle_map d p i e)
   = (fst (dropdown_bits e),
      (opened d p \<and> i = d) \<or> (i \<notin> set (open_dropdowns p) \<and> snd (dropdown_bits e)))"
  by (auto simp add: toggle_map_def close_map_def dropdown_bits_def setAttribute_def
      classList_add_def classList_remove_def)

lemma dropdown_view_toggleDropdown:
  "dropdown_view (toggleDropdown d p)
   = (map (\<lambda>(i, u, b). (i, u, fst b,
                          (opened d p \<and> i = d) \<or> (i \<notin> set (open_dropdowns p) \<and> snd b)))
        (fst (dropdown_view p)),
      map (\<lambda>(i, u, b). (i, u, fst b,
                          (opened d p \<and> i = d) \<or> (i \<notin> set (open_dropdowns p) \<and> snd b)))
        (snd (dropdown_view p)))"
  unfolding toggleDropdown_pmap dropdown_view_pmap dropdown_bits_toggle_map
  by (simp add: dropdown_view_def comp_def case_prod_unfold)

lemma dropdown_view_closeAllDropdowns:
  "dropdown_view (closeAllDropdowns p)
   = (map (\<lambda>(i, u, b). (i, u, fst b, i \<notin> set (open_dropdowns p) \<and> snd b))
        (fst (dropdown_view p)),
      map (\<lambda>(i, u, b). (i, u, fst b, i \<notin> set (open_dropdowns p) \<and> snd b))
        (snd (dropdown_view p)))"
  unfolding closeAllDropdowns_pmap dropdown_view_pmap dropdown_bits_close_map
  by (simp add: dropdown_view_def comp_def case_prod_unfold)

lemma dropdown_view_dropdown_click_cong:
  assumes "dropdown_view q = dropdown_view p"
  shows "dropdown_view (dropdown_click t q) = dropdown_view (dropdown_click t p)"
  unfolding dropdown_click_def closest_dropdown_cong [OF assms]
  by (simp add: dropdown_view_toggleDropdown dropdown_view_closeAllDropdowns
      opened_cong [OF assms] open_dropdowns_cong [OF assms] assms split: option.splits)

lemma dropdown_view_document_click:
  "dropdown_view (document_click t p) = dropdown_view (dropdown_click t p)"
  unfolding document_click_def dropdown_view_tab_click
  by (rule dropdown_view_dropdown_click_cong)
     (simp add: dropdown_view_collapse_click dropdown_view_alert_click)

lemma dropdown_view_entry_click:
  "dropdown_view (entry_click t p) = dropdown_view (dropdown_click t (dropdown_click t p))"
  unfolding entry_click_def dropdown_view_document_click
  by (rule dropdown_view_dropdown_click_cong) (rule dropdown_view_document_click)

subsection \<open>One run and two runs of the dropdown listener\<close>

lemma closest_pmap:
  assumes "\<And>i e. matches sel (h i e) = matches sel e"
  shows "closest sel n (pmap h p) = closest sel n p"
proof -
  have "(\<lambda>a. case lookup a (pmap h p) of None \<Rightarrow> False | Some (ua, ea) \<Rightarrow> matches sel ea)
        = (\<lambda>a. case lookup a p of None \<Rightarrow> False | Some (ua, ea) \<Rightarrow> matches sel ea)"
    by (intro ext) (simp add: lookup_pmap assms split: option.splits)
  then show ?thesis
    by (simp add: closest_def lookup_pmap split: option.splits)
qed

lemma toggle_map_attr:
  "attrs (toggle_map d p i e) ''data-dropdown'' = attrs e ''data-dropdown''"
  by (simp add: toggle_map_def setAttribute_def classList_add_def)

lemma closest_dropdown_click:
  "closest (HasAttr ''data-dropdown'') n (dropdown_click t p)
   = closest (HasAttr ''data-dropdown'') n p"
  by (simp add: dropdown_click_def toggleDropdown_pmap closeAllDropdowns_pmap closest_pmap
      toggle_map_attr split: option.splits)

lemma dropdowns_dropdown_click:
  "querySelectorAll (HasAttr ''data-dropdown'') (dropdown_click t p)
   = querySelectorAll (HasAttr ''data-dropdown'') p"
  by (simp add: dropdown_click_def toggleDropdown_pmap closeAllDropdowns_pmap
      querySelectorAll_pmap toggle_map_attr split: option.splits)

lemma doc_ids_dropdown_click: "doc_ids (dropdown_click t p) = doc_ids p"
  by (simp add: dropdown_click_def split: option.splits)

lemma open_dropdowns_toggle_eq:
  assumes d: "distinct (doc_ids p)"
  shows "open_dropdowns (toggleDropdown b p)
         = (if b \<in> set (querySelectorAll (HasAttr ''data-dropdown'') p)
               \<and> b \<notin> set (open_dropdowns p) then [b] else [])"
proof (cases "b \<in> set (querySelectorAll (HasAttr ''data-dropdown'') p)")
  case False
  have "open_dropdowns (toggleDropdown b p) = []"
  proof (rule ccontr)
    assume "open_dropdowns (toggleDropdown b p) \<noteq> []"
    then obtain x where "x \<in> set (open_dropdowns (toggleDropdown b p))"
      by (cases "open_dropdowns (toggleDropdown b p)") auto
    then obtain u e where "(b, u, e) \<in> set (flatten [] (doc p))"
        "attrs e ''data-dropdown'' \<noteq> None"
      by (auto simp add: open_dropdowns_toggleDropdown)
    then have "b \<in> set (querySelectorAll (HasAttr ''data-dropdown'') p)"
      by (force simp add: querySelectorAll_def)
    with False show False by simp
  qed
  with False show ?thesis by simp
next
  case True
  then obtain u e where e: "(b, u, e) \<in> set (flatten [] (doc p))"
      "attrs e ''data-dropdown'' \<noteq> None"
    by (auto simp add: querySelectorAll_def)
  have "b \<in> set (doc_ids p)" using e(1) by (force simp add: doc_ids_def)
  from lookup_doc [OF this] obtain u' e' where l: "lookup b p = Some (u', e')"
      "(b, u', e') \<in> set (flatten [] (doc p))"
    by blast
  have ee: "e' = e" using distinct_entry_unique [OF d l(2) e(1)] by simp
  have o: "opened b p = (''open'' \<notin> set (classes e))"
    by (simp add: opened_def l(1) ee classList_contains_def)
  have m: "(b \<in> set (open_dropdowns p)) = (''open'' \<in> set (classes e))"
  proof
    assume "b \<in> set (open_dropdowns p)"
    then obtain u2 e2 where e2: "(b, u2, e2) \<in> set (flatten [] (doc p))"
        "''open'' \<in> set (classes e2)"
      by (auto simp add: open_dropdowns_def querySelectorAll_def)
    with distinct_entry_unique [OF d e2(1) e(1)] show "''open'' \<in> set (classes e)" by simp
  next
    assume "''open'' \<in> set (classes e)"
    with e show "b \<in> set (open_dropdowns p)"
      by (force simp add: open_dropdowns_def querySelectorAll_def)
  qed
  show ?thesis
  proof (cases "b \<in> set (open_dropdowns p)")
    case True
    with m o have "\<not> opened b p" by simp
    then have "open_dropdowns (toggleDropdown b p) = []"
      by (simp add: open_dropdowns_toggleDropdown)
    with True show ?thesis by simp
  next
    case False
    with m o have "opened b p" by simp
    with e have "b \<in> set (open_dropdowns (toggleDropdown b p))"
      by (force simp add: open_dropdowns_toggleDropdown)
    then have "set (open_dropdowns (toggleDropdown b p)) = {b}"
      using open_dropdowns_subset [of b p] by blast
    moreover have "distinct (open_dropdowns (toggleDropdown b p))"
      by (rule distinct_open_dropdowns) (simp add: d)
    ultimately have "open_dropdowns (toggleDropdown b p) = [b]"
      by (intro distinct_set_singleton)
    with False \<open>b \<in> set (querySelectorAll (HasAttr ''data-dropdown'') p)\<close>
    show ?thesis by simp
  qed
qed

lemma open_dropdowns_dropdown_click:
  assumes "distinct (doc_ids p)"
  shows "open_dropdowns (dropdown_click t p)
         = (case closest (HasAttr ''data-dropdown'') t p of
              None \<Rightarrow> []
            | Some c \<Rightarrow>
                if c \<in> set (querySelectorAll (HasAttr ''data-dropdown'') p)
                   \<and> c \<notin> set (open_dropdowns p) then [c] else [])"
  by (simp add: dropdown_click_def open_dropdowns_toggle_eq [OF assms]
      open_dropdowns_closeAllDropdowns split: option.splits)

lemma open_dropdowns_dropdown_click_twice:
  assumes "distinct (doc_ids p)"
  shows "open_dropdowns (dropdown_click t (dropdown_click t p))
         = (case closest (HasAttr ''data-dropdown'') t p of
              None \<Rightarrow> []
            | Some c \<Rightarrow>
                if c \<in> set (querySelectorAll (HasAttr ''data-dropdown'') p)
                   \<and> c \<in> set (open_dropdowns p) then [c] else [])"
proof -
  let ?q = "dropdown_click t p"
  have dq: "distinct (doc_ids ?q)" using assms by (simp add: doc_ids_dropdown_click)
  show ?thesis
    unfolding open_dropdowns_dropdown_click [OF dq] closest_dropdown_click
      dropdowns_dropdown_click
    unfolding open_dropdowns_dropdown_click [OF assms]
    by (simp split: option.splits)
qed

lemma open_dropdowns_document_click:
  assumes "distinct (doc_ids p)"
  shows "open_dropdowns (document_click t p)
         = (case closest (HasAttr ''data-dropdown'') t p of
              None \<Rightarrow> []
            | Some c \<Rightarrow>
                if c \<in> set (querySelectorAll (HasAttr ''data-dropdown'') p)
                   \<and> c \<notin> set (open_dropdowns p) then [c] else [])"
  unfolding open_dropdowns_cong [OF dropdown_view_document_click]
  using assms by (rule open_dropdowns_dropdown_click)

lemma open_dropdowns_entry_click:
  assumes "distinct (doc_ids p)"
  shows "open_dropdowns (entry_click t p)
         = (case closest (HasAttr ''data-dropdown'') t p of
              None \<Rightarrow> []
            | Some c \<Rightarrow>
                if c \<in> set (querySelectorAll (HasAttr ''data-dropdown'') p)
                   \<and> c \<in> set (open_dropdowns p) then [c] else [])"
  unfolding open_dropdowns_cong [OF dropdown_view_entry_click]
  using assms by (rule open_dropdowns_dropdown_click_twice)

lemma closest_document_click:
  "closest (HasAttr ''data-dropdown'') n (document_click t p)
   = closest (HasAttr ''data-dropdown'') n p"
  unfolding closest_dropdown_cong [OF dropdown_view_document_click]
  by (rule closest_dropdown_click)

lemma dropdowns_document_click:
  "querySelectorAll (HasAttr ''data-dropdown'') (document_click t p)
   = querySelectorAll (HasAttr ''data-dropdown'') p"
  unfolding dropdowns_cong [OF dropdown_view_document_click]
  by (rule dropdowns_dropdown_click)

lemma doc_ids_document_click: "doc_ids (document_click t p) = doc_ids p"
  unfolding doc_ids_cong [OF dropdown_view_document_click]
  by (rule doc_ids_dropdown_click)

lemma closest_entry_click:
  "closest (HasAttr ''data-dropdown'') n (entry_click t p)
   = closest (HasAttr ''data-dropdown'') n p"
  by (simp add: entry_click_def closest_document_click)

lemma dropdowns_entry_click:
  "querySelectorAll (HasAttr ''data-dropdown'') (entry_click t p)
   = querySelectorAll (HasAttr ''data-dropdown'') p"
  by (simp add: entry_click_def dropdowns_document_click)

lemma doc_ids_entry_click: "doc_ids (entry_click t p) = doc_ids p"
  by (simp add: entry_click_def doc_ids_document_click)

lemma length_if_singleton: "length (if c then [x] else []) \<le> 1"
  by simp

lemma click_a_then_b:
  assumes d: "distinct (doc_ids p)" and ne: "a \<noteq> b"
    and ca: "closest (HasAttr ''data-dropdown'') ta p = Some a"
    and cb: "closest (HasAttr ''data-dropdown'') tb p = Some b"
    and a: "a \<in> set (querySelectorAll (HasAttr ''data-dropdown'') p)"
    and b: "b \<in> set (querySelectorAll (HasAttr ''data-dropdown'') p)"
    and closed: "a \<notin> set (open_dropdowns p)"
  shows "open_dropdowns (document_click ta p) = [a]"
    and "open_dropdowns (document_click tb (document_click ta p)) = [b]"
    and "open_dropdowns (entry_click ta p) = []"
    and "open_dropdowns (entry_click tb (entry_click ta p)) = []"
proof -
  show 1: "open_dropdowns (document_click ta p) = [a]"
    using a closed by (simp add: open_dropdowns_document_click [OF d] ca)
  have dq: "distinct (doc_ids (document_click ta p))"
    using d by (simp add: doc_ids_document_click)
  show "open_dropdowns (document_click tb (document_click ta p)) = [b]"
    using b ne
    by (simp add: open_dropdowns_document_click [OF dq] closest_document_click cb
        dropdowns_document_click 1)
  show 2: "open_dropdowns (entry_click ta p) = []"
    using closed by (simp add: open_dropdowns_entry_click [OF d] ca)
  have de: "distinct (doc_ids (entry_click ta p))"
    using d by (simp add: doc_ids_entry_click)
  show "open_dropdowns (entry_click tb (entry_click ta p)) = []"
    by (simp add: open_dropdowns_entry_click [OF de] closest_entry_click cb 2)
qed

text \<open>
  C4. The dropdowns and the click. On a page whose elements have distinct identities:
  after \<open>toggleDropdown(d)\<close> at most one element of the document has the attribute
  \<open>data-dropdown\<close> and the class \<open>open\<close>, and only \<open>d\<close> can be it; \<open>closeAllDropdowns\<close>
  leaves none; toggling \<open>a\<close> and then another dropdown \<open>b\<close> leaves exactly \<open>b\<close> open.
  After a click, whether the four listeners run once or twice, at most one dropdown is
  open. When the four listeners run once, the click leaves open the dropdown around the
  target if it was closed, and nothing otherwise; clicking in the closed dropdown \<open>a\<close>
  and then in another dropdown \<open>b\<close> leaves exactly \<open>b\<close> open. When they run twice, as on
  a page that has loaded the entry point, the second run undoes the first: the click
  leaves open the dropdown around the target if it was open already, and nothing
  otherwise, so that the click in the closed dropdown \<open>a\<close> opens nothing, and after the
  click in \<open>b\<close> nothing is open either.
\<close>

theorem dropdown_clicks:
  assumes "distinct (doc_ids p)"
  shows "length (open_dropdowns (toggleDropdown d p)) \<le> 1
         \<and> set (open_dropdowns (toggleDropdown d p)) \<subseteq> {d}
         \<and> open_dropdowns (closeAllDropdowns p) = []
         \<and> (a \<noteq> b \<and> b \<in> set (querySelectorAll (HasAttr ''data-dropdown'') p)
              \<longrightarrow> open_dropdowns (toggleDropdown b (toggleDropdown a p)) = [b])
         \<and> length (open_dropdowns (dropdown_click target p)) \<le> 1
         \<and> length (open_dropdowns (document_click target p)) \<le> 1
         \<and> length (open_dropdowns (entry_click target p)) \<le> 1
         \<and> open_dropdowns (document_click target p)
             = (case closest (HasAttr ''data-dropdown'') target p of
                  None \<Rightarrow> []
                | Some c \<Rightarrow>
                    if c \<in> set (querySelectorAll (HasAttr ''data-dropdown'') p)
                       \<and> c \<notin> set (open_dropdowns p) then [c] else [])
         \<and> open_dropdowns (entry_click target p)
             = (case closest (HasAttr ''data-dropdown'') target p of
                  None \<Rightarrow> []
                | Some c \<Rightarrow>
                    if c \<in> set (querySelectorAll (HasAttr ''data-dropdown'') p)
                       \<and> c \<in> set (open_dropdowns p) then [c] else [])
         \<and> (a \<noteq> b
              \<and> closest (HasAttr ''data-dropdown'') ta p = Some a
              \<and> closest (HasAttr ''data-dropdown'') tb p = Some b
              \<and> a \<in> set (querySelectorAll (HasAttr ''data-dropdown'') p)
              \<and> b \<in> set (querySelectorAll (HasAttr ''data-dropdown'') p)
              \<and> a \<notin> set (open_dropdowns p)
              \<longrightarrow> open_dropdowns (document_click ta p) = [a]
                  \<and> open_dropdowns (document_click tb (document_click ta p)) = [b]
                  \<and> open_dropdowns (entry_click ta p) = []
                  \<and> open_dropdowns (entry_click tb (entry_click ta p)) = [])"
proof -
  have c1: "length (open_dropdowns (toggleDropdown d p)) \<le> 1"
    using assms by (rule open_dropdowns_length)
  have c2: "set (open_dropdowns (toggleDropdown d p)) \<subseteq> {d}"
    by (rule open_dropdowns_subset)
  have c3: "open_dropdowns (closeAllDropdowns p) = []"
    by (rule open_dropdowns_closeAllDropdowns)
  have c4: "a \<noteq> b \<and> b \<in> set (querySelectorAll (HasAttr ''data-dropdown'') p)
              \<longrightarrow> open_dropdowns (toggleDropdown b (toggleDropdown a p)) = [b]"
    using open_a_then_b [OF assms] by blast
  have c5: "length (open_dropdowns (dropdown_click target p)) \<le> 1"
    using assms by (rule open_dropdowns_click)
  have c8: "open_dropdowns (document_click target p)
             = (case closest (HasAttr ''data-dropdown'') target p of
                  None \<Rightarrow> []
                | Some c \<Rightarrow>
                    if c \<in> set (querySelectorAll (HasAttr ''data-dropdown'') p)
                       \<and> c \<notin> set (open_dropdowns p) then [c] else [])"
    using assms by (rule open_dropdowns_document_click)
  have c9: "open_dropdowns (entry_click target p)
             = (case closest (HasAttr ''data-dropdown'') target p of
                  None \<Rightarrow> []
                | Some c \<Rightarrow>
                    if c \<in> set (querySelectorAll (HasAttr ''data-dropdown'') p)
                       \<and> c \<in> set (open_dropdowns p) then [c] else [])"
    using assms by (rule open_dropdowns_entry_click)
  have c6: "length (open_dropdowns (document_click target p)) \<le> 1"
    unfolding c8 by (simp split: option.splits)
  have c7: "length (open_dropdowns (entry_click target p)) \<le> 1"
    unfolding c9 by (simp split: option.splits)
  have c10: "a \<noteq> b
              \<and> closest (HasAttr ''data-dropdown'') ta p = Some a
              \<and> closest (HasAttr ''data-dropdown'') tb p = Some b
              \<and> a \<in> set (querySelectorAll (HasAttr ''data-dropdown'') p)
              \<and> b \<in> set (querySelectorAll (HasAttr ''data-dropdown'') p)
              \<and> a \<notin> set (open_dropdowns p)
              \<longrightarrow> open_dropdowns (document_click ta p) = [a]
                  \<and> open_dropdowns (document_click tb (document_click ta p)) = [b]
                  \<and> open_dropdowns (entry_click ta p) = []
                  \<and> open_dropdowns (entry_click tb (entry_click ta p)) = []"
  proof
    assume "a \<noteq> b
              \<and> closest (HasAttr ''data-dropdown'') ta p = Some a
              \<and> closest (HasAttr ''data-dropdown'') tb p = Some b
              \<and> a \<in> set (querySelectorAll (HasAttr ''data-dropdown'') p)
              \<and> b \<in> set (querySelectorAll (HasAttr ''data-dropdown'') p)
              \<and> a \<notin> set (open_dropdowns p)"
    then have ne: "a \<noteq> b"
      and ca: "closest (HasAttr ''data-dropdown'') ta p = Some a"
      and cb: "closest (HasAttr ''data-dropdown'') tb p = Some b"
      and a: "a \<in> set (querySelectorAll (HasAttr ''data-dropdown'') p)"
      and b: "b \<in> set (querySelectorAll (HasAttr ''data-dropdown'') p)"
      and closed: "a \<notin> set (open_dropdowns p)"
      by simp_all
    note r = click_a_then_b [OF assms ne ca cb a b closed]
    show "open_dropdowns (document_click ta p) = [a]
          \<and> open_dropdowns (document_click tb (document_click ta p)) = [b]
          \<and> open_dropdowns (entry_click ta p) = []
          \<and> open_dropdowns (entry_click tb (entry_click ta p)) = []"
      by (intro conjI r)
  qed
  show ?thesis by (intro conjI c1 c2 c3 c4 c5 c6 c7 c8 c9 c10)
qed

theorem dropdown_clicks_witness:
  "distinct (doc_ids dropdown_page)
   \<and> querySelectorAll (HasAttr ''data-dropdown'') dropdown_page = [10, 11, 12]
   \<and> open_dropdowns dropdown_page = [12]
   \<and> closest (HasAttr ''data-dropdown'') 13 dropdown_page = Some 10
   \<and> closest (HasAttr ''data-dropdown'') 11 dropdown_page = Some 11
   \<and> length (open_dropdowns (toggleDropdown 11 dropdown_page)) \<le> 1
   \<and> open_dropdowns (toggleDropdown 11 (toggleDropdown 10 dropdown_page)) = [11]
   \<and> open_dropdowns (document_click 13 dropdown_page) = [10]
   \<and> open_dropdowns (document_click 11 (document_click 13 dropdown_page)) = [11]
   \<and> open_dropdowns (entry_click 13 dropdown_page) = []
   \<and> open_dropdowns (entry_click 11 (entry_click 13 dropdown_page)) = []"
proof -
  have d: "distinct (doc_ids dropdown_page)"
    by (simp add: dropdown_page_def doc_ids_def)
  have q: "querySelectorAll (HasAttr ''data-dropdown'') dropdown_page = [10, 11, 12]"
    by (simp add: dropdown_page_def querySelectorAll_def plain_def)
  have o: "open_dropdowns dropdown_page = [12]"
    by (simp add: dropdown_page_def open_dropdowns_def querySelectorAll_def plain_def)
  have c13: "closest (HasAttr ''data-dropdown'') 13 dropdown_page = Some 10"
    and c11: "closest (HasAttr ''data-dropdown'') 11 dropdown_page = Some 11"
    by (simp_all add: dropdown_page_def blank_page_def plain_def closest_def lookup_def
        entries_def)
  note T = dropdown_clicks [OF d, where d = 11 and a = 10 and b = 11 and ta = 13 and tb = 11
      and target = 13]
  from T have "length (open_dropdowns (toggleDropdown 11 dropdown_page)) \<le> 1" by blast
  moreover from T q
  have "open_dropdowns (toggleDropdown 11 (toggleDropdown 10 dropdown_page)) = [11]"
    by simp
  moreover from T q o c13 c11
  have "open_dropdowns (document_click 13 dropdown_page) = [10]
        \<and> open_dropdowns (document_click 11 (document_click 13 dropdown_page)) = [11]
        \<and> open_dropdowns (entry_click 13 dropdown_page) = []
        \<and> open_dropdowns (entry_click 11 (entry_click 13 dropdown_page)) = []"
    by simp
  ultimately show ?thesis using d q o c13 c11 by blast
qed

section \<open>Properties of the notifications\<close>

lemma graft_old_kept:
  "x \<in> set (flatten up t) \<Longrightarrow> x \<in> set (flatten up (graft b c t))"
proof (induction t arbitrary: up)
  case (Node i e ks)
  show ?case
  proof (cases "i = b")
    case True
    with Node.prems show ?thesis by auto
  next
    case False
    with Node.prems Node.IH show ?thesis by auto
  qed
qed

lemma graft_new_or_old:
  "x \<in> set (flatten up (graft b c t))
   \<Longrightarrow> x \<in> set (flatten up t) \<or> (\<exists>u'. x \<in> set (flatten (b # u') c))"
proof (induction t arbitrary: up)
  case (Node i e ks)
  show ?case
  proof (cases "i = b")
    case True
    with Node.prems show ?thesis by auto
  next
    case False
    with Node.prems Node.IH show ?thesis by auto
  qed
qed

lemma graft_new_present:
  "b \<in> fst ` set (flatten up t)
   \<Longrightarrow> \<exists>u'. set (flatten (b # u') c) \<subseteq> set (flatten up (graft b c t))"
proof (induction t arbitrary: up)
  case (Node i e ks)
  show ?case
  proof (cases "i = b")
    case True
    then show ?thesis by auto
  next
    case False
    with Node.prems obtain k where k: "k \<in> set ks" "b \<in> fst ` set (flatten (i # up) k)"
      by auto
    from Node.IH [OF k] obtain u' where
      "set (flatten (b # u') c) \<subseteq> set (flatten (i # up) (graft b c k))" by blast
    with k(1) False show ?thesis by auto
  qed
qed

lemma graft_filter:
  assumes "\<And>u x. x \<in> set (flatten u c) \<Longrightarrow> \<not> P x"
  shows "filter P (flatten up (graft b c t)) = filter P (flatten up t)"
proof (induction t arbitrary: up)
  case (Node i e ks)
  show ?case
  proof (cases "i = b")
    case True
    have "filter P (flatten (b # up) c) = []"
      using assms by (simp add: filter_empty_conv)
    with True show ?thesis by simp
  next
    case False
    have *: "map (\<lambda>k. filter P (flatten (i # up) (graft b c k))) ks
          = map (\<lambda>k. filter P (flatten (i # up) k)) ks"
      by (rule map_cong [OF refl]) (simp add: Node.IH)
    show ?thesis using False by (simp add: filter_concat comp_def *)
  qed
qed

lemma find_filter: "find P xs = (case filter P xs of [] \<Rightarrow> None | x # _ \<Rightarrow> Some x)"
  by (induction xs) simp_all

lemma getNotificationContainer_eq:
  "getNotificationContainer position p =
     (case getElementById (''notifications-'' @ position) p of
        Some c \<Rightarrow> Inr (c, p)
      | None \<Rightarrow>
          (case body p of
             None \<Rightarrow> Inl TypeError
           | Some b \<Rightarrow>
               Inr (next_id p,
                    appendChild b (container_node position (next_id p))
                      (p\<lparr>next_id := Suc (next_id p)\<rparr>))))"
  by (simp add: getNotificationContainer_def createElement_def node_update_def Let_def
      container_node_def blank_def body_def split: option.splits)

lemma notify_eq:
  "notify message opts p =
     (if list_ex is_space (''notification-'' @ config_position opts)
      then Inl InvalidCharacterError
      else (case getNotificationContainer (config_position opts)
                   (p\<lparr>next_id := next_id p + created opts\<rparr>) of
              Inl err \<Rightarrow> Inl err
            | Inr (c, q) \<Rightarrow>
                Inr (next_id p,
                     (if config_duration opts > 0
                      then setTimeout (AutoDismiss (next_id p)) (config_duration opts)
                             (appendChild c (notification_node message opts (next_id p)) q)
                      else appendChild c (notification_node message opts (next_id p)) q))))"
proof -
  have n: "next_id p + created opts
           = (if config_dismissible opts then Suc (Suc (Suc (next_id p)))
              else Suc (Suc (next_id p)))"
    by (simp add: created_def)
  show ?thesis
  proof (cases "getNotificationContainer (config_position opts)
                  (p\<lparr>next_id := if config_dismissible opts then Suc (Suc (Suc (next_id p)))
                                   else Suc (Suc (next_id p))\<rparr>)")
    case (Inl err)
    show ?thesis
    proof (cases "config_dismissible opts")
      case True
      with Inl show ?thesis
        unfolding notify_def config_duration_def [symmetric] config_position_def [symmetric]
          config_dismissible_def [symmetric] config_type_def [symmetric] n
        by (simp add: createElement_def node_update_def node_append_def Let_def
            del: class_tokens.simps list_ex_append list_ex_Cons_iff)
    next
      case False
      with Inl show ?thesis
        unfolding notify_def config_duration_def [symmetric] config_position_def [symmetric]
          config_dismissible_def [symmetric] config_type_def [symmetric] n
        by (simp add: createElement_def node_update_def node_append_def Let_def
            del: class_tokens.simps list_ex_append list_ex_Cons_iff)
    qed
  next
    case (Inr cq)
    obtain c q where cq: "cq = (c, q)" by (cases cq)
    show ?thesis
    proof (cases "config_dismissible opts")
      case True
      with Inr cq show ?thesis
        unfolding notify_def config_duration_def [symmetric] config_position_def [symmetric]
          config_dismissible_def [symmetric] config_type_def [symmetric] n
        by (simp add: createElement_def node_update_def node_append_def Let_def
            notification_node_def blank_def
            del: class_tokens.simps list_ex_append list_ex_Cons_iff)
    next
      case False
      with Inr cq show ?thesis
        unfolding notify_def config_duration_def [symmetric] config_position_def [symmetric]
          config_dismissible_def [symmetric] config_type_def [symmetric] n
        by (simp add: createElement_def node_update_def node_append_def Let_def
            notification_node_def blank_def
            del: class_tokens.simps list_ex_append list_ex_Cons_iff)
    qed
  qed
qed

lemma flatten_notification_node:
  "x \<in> set (flatten u (notification_node m opts k))
   \<Longrightarrow> attrs (snd (snd x)) ''id'' = None \<and> k \<le> fst x \<and> fst x < k + created opts
       \<and> (fst x = k \<longrightarrow> fst (snd x) = u)"
  by (auto simp add: notification_node_def created_def classList_add_def set_className_def
      setAttribute_def blank_def simp del: class_tokens.simps split: if_splits)

lemma notification_node_root:
  "\<exists>e. (k, u, e) \<in> set (flatten u (notification_node m opts k))"
  by (simp add: notification_node_def)

lemma flatten_container_node:
  "\<exists>e. flatten u (container_node pos k) = [(k, u, e)]
       \<and> attrs e ''id'' = Some (''notifications-'' @ pos)"
  by (simp add: container_node_def set_className_def setAttribute_def blank_def
      del: class_tokens.simps)

lemma getElementById_elements:
  "getElementById s p =
     (if s = [] then None else case elements_by_id s p of [] \<Rightarrow> None | x # xs \<Rightarrow> Some x)"
  by (simp add: getElementById_def elements_by_id_def find_filter split: list.splits)

lemma doc_appendChild [simp]: "doc (appendChild c n p) = graft c n (doc p)"
  by (simp add: appendChild_def)

lemma elements_by_id_appendChild_notification:
  "elements_by_id s (appendChild c (notification_node m opts k) p) = elements_by_id s p"
proof -
  have "filter (\<lambda>(i, u, e). attrs e ''id'' = Some s)
          (flatten [] (graft c (notification_node m opts k) (doc p)))
        = filter (\<lambda>(i, u, e). attrs e ''id'' = Some s) (flatten [] (doc p))"
  proof (rule graft_filter)
    fix u x assume "x \<in> set (flatten u (notification_node m opts k))"
    from flatten_notification_node [OF this]
    show "\<not> (case x of (i, u, e) \<Rightarrow> attrs e ''id'' = Some s)"
      by (simp add: case_prod_unfold)
  qed
  then show ?thesis by (simp add: elements_by_id_def)
qed

lemma body_in_doc: "body p = Some b \<Longrightarrow> b \<in> fst ` set (flatten [] (doc p))"
proof -
  assume "body p = Some b"
  then obtain k where k: "k \<in> set (kids (doc p))" "nid k = b"
    by (auto simp add: body_def dest: find_SomeD)
  obtain i e ks where d: "doc p = Node i e ks" by (cases "doc p")
  obtain j f js where kk: "k = Node j f js" by (cases k)
  have "(b, [i], f) \<in> set (flatten [i] k)" using k(2) kk by simp
  then show ?thesis using k(1) d by force
qed

lemma getNotificationContainer_existing:
  "getElementById (''notifications-'' @ pos) p = Some c
   \<Longrightarrow> getNotificationContainer pos p = Inr (c, p)"
  by (simp add: getNotificationContainer_eq)

lemma getElementById_created:
  assumes none: "getElementById (''notifications-'' @ pos) p = None"
      and b: "body p = Some b"
  shows "getElementById (''notifications-'' @ pos)
           (appendChild b (container_node pos k) (p\<lparr>next_id := n\<rparr>)) = Some k"
proof -
  let ?P = "\<lambda>(i, u, e). attrs e ''id'' = Some (''notifications-'' @ pos)"
  let ?xs = "flatten [] (graft b (container_node pos k) (doc p))"
  have old: "\<not> ?P x" if "x \<in> set (flatten [] (doc p))" for x
    using none that by (auto simp add: getElementById_def find_None_iff)
  have "b \<in> fst ` set (flatten [] (doc p))" using b by (rule body_in_doc)
  from graft_new_present [OF this] obtain u' where
    u': "set (flatten (b # u') (container_node pos k)) \<subseteq> set ?xs" by blast
  obtain e where e: "flatten (b # u') (container_node pos k) = [(k, b # u', e)]"
      "attrs e ''id'' = Some (''notifications-'' @ pos)"
    using flatten_container_node by blast
  have "(k, b # u', e) \<in> set ?xs" using u' e(1) by simp
  moreover have "?P (k, b # u', e)" using e(2) by simp
  ultimately have "\<exists>x. x \<in> set ?xs \<and> ?P x" by blast
  then have "find ?P ?xs \<noteq> None" unfolding find_None_iff by blast
  then obtain x where x: "find ?P ?xs = Some x" by blast
  then have px: "?P x" and "x \<in> set ?xs" by (auto dest: find_SomeD)
  from graft_new_or_old [OF this(2)] old px obtain u'' where
    "x \<in> set (flatten (b # u'') (container_node pos k))" by blast
  moreover obtain e' where "flatten (b # u'') (container_node pos k) = [(k, b # u'', e')]"
    using flatten_container_node by blast
  ultimately have "fst x = k" by simp
  with x show ?thesis by (simp add: getElementById_def)
qed

lemma getNotificationContainer_found:
  assumes "getNotificationContainer pos p = Inr (c, q)"
  shows "getElementById (''notifications-'' @ pos) q = Some c"
proof (cases "getElementById (''notifications-'' @ pos) p")
  case (Some c')
  with assms show ?thesis by (simp add: getNotificationContainer_eq)
next
  case None
  with assms obtain b where b: "body p = Some b" and c: "c = next_id p"
      and q: "q = appendChild b (container_node pos (next_id p)) (p\<lparr>next_id := Suc (next_id p)\<rparr>)"
    by (auto simp add: getNotificationContainer_eq split: option.splits)
  show ?thesis unfolding q c using None b by (rule getElementById_created)
qed

lemma getNotificationContainer_idempotent:
  assumes "getNotificationContainer pos p = Inr (c, q)"
  shows "getNotificationContainer pos q = Inr (c, q)"
  using getNotificationContainer_found [OF assms] by (rule getNotificationContainer_existing)

lemma doc_ids_graft:
  "i \<in> fst ` set (flatten up (graft b c t))
   \<Longrightarrow> i \<in> fst ` set (flatten up t) \<or> (\<exists>u'. i \<in> fst ` set (flatten u' c))"
proof -
  assume "i \<in> fst ` set (flatten up (graft b c t))"
  then obtain x where x: "x \<in> set (flatten up (graft b c t))" "fst x = i" by auto
  from graft_new_or_old [OF x(1)] show ?thesis
  proof
    assume "x \<in> set (flatten up t)"
    then show ?thesis using x(2) by force
  next
    assume "\<exists>u'. x \<in> set (flatten (b # u') c)"
    then show ?thesis using x(2) by force
  qed
qed

lemma getNotificationContainer_ids:
  assumes "getNotificationContainer pos p = Inr (c, q)"
  shows "next_id p \<le> next_id q
         \<and> set (doc_ids q) \<subseteq> set (doc_ids p) \<union> {i. i = next_id p \<and> i < next_id q}
         \<and> timers q = timers p"
proof (cases "getElementById (''notifications-'' @ pos) p")
  case (Some c')
  with assms show ?thesis by (auto simp add: getNotificationContainer_eq)
next
  case None
  with assms obtain b where b: "body p = Some b" and c: "c = next_id p"
      and q: "q = appendChild b (container_node pos (next_id p)) (p\<lparr>next_id := Suc (next_id p)\<rparr>)"
    by (auto simp add: getNotificationContainer_eq split: option.splits)
  have "i \<in> set (doc_ids p) \<or> i = next_id p" if "i \<in> set (doc_ids q)" for i
  proof -
    from that have "i \<in> fst ` set (flatten [] (graft b (container_node pos (next_id p)) (doc p)))"
      by (simp add: q doc_ids_def)
    from doc_ids_graft [OF this] show ?thesis
    proof
      assume "i \<in> fst ` set (flatten [] (doc p))"
      then show ?thesis by (simp add: doc_ids_def)
    next
      assume "\<exists>u'. i \<in> fst ` set (flatten u' (container_node pos (next_id p)))"
      then obtain u' where "i \<in> fst ` set (flatten u' (container_node pos (next_id p)))"
        by blast
      moreover obtain e where "flatten u' (container_node pos (next_id p)) = [(next_id p, u', e)]"
        using flatten_container_node by blast
      ultimately show ?thesis by simp
    qed
  qed
  moreover have "next_id q = Suc (next_id p)" and "timers q = timers p"
    by (simp_all add: q appendChild_def)
  ultimately show ?thesis by auto
qed

lemma created_ge_2: "2 \<le> created opts"
  by (simp add: created_def)

lemma fresh_idsD: "fresh_ids p \<Longrightarrow> i \<in> set (doc_ids p) \<Longrightarrow> i < next_id p"
  by (simp add: fresh_ids_def list_all_iff)

lemma fresh_idsI: "(\<And>i. i \<in> set (doc_ids p) \<Longrightarrow> i < next_id p) \<Longrightarrow> fresh_ids p"
  by (simp add: fresh_ids_def list_all_iff)

lemma getElementById_in_doc:
  assumes "getElementById s p = Some c"
  shows "c \<in> fst ` set (flatten [] (doc p))"
proof -
  from assms obtain x where "x \<in> set (flatten [] (doc p))" "fst x = c"
    by (auto simp add: getElementById_def dest!: find_SomeD split: if_splits)
  then show ?thesis by force
qed

text \<open>What a successful \<open>notify\<close> did.\<close>

lemma notify_success:
  assumes "notify m opts p = Inr (n, p')"
  obtains c q where
    "getNotificationContainer (config_position opts) (p\<lparr>next_id := next_id p + created opts\<rparr>)
       = Inr (c, q)"
    "n = next_id p"
    "doc p' = graft c (notification_node m opts (next_id p)) (doc q)"
    "next_id p' = next_id q"
    "timers p' = (if config_duration opts > 0
                  then timers q @ [(config_duration opts, AutoDismiss n)] else timers q)"
proof -
  from assms obtain c q where
    g: "getNotificationContainer (config_position opts)
           (p\<lparr>next_id := next_id p + created opts\<rparr>) = Inr (c, q)"
    and r: "(n, p') = (next_id p,
              (if config_duration opts > 0
               then setTimeout (AutoDismiss (next_id p)) (config_duration opts)
                      (appendChild c (notification_node m opts (next_id p)) q)
               else appendChild c (notification_node m opts (next_id p)) q))"
    unfolding notify_eq by (auto split: if_splits sum.splits)
  from r have "n = next_id p"
    and "doc p' = graft c (notification_node m opts (next_id p)) (doc q)"
    and "next_id p' = next_id q"
    and "timers p' = (if config_duration opts > 0
                  then timers q @ [(config_duration opts, AutoDismiss n)] else timers q)"
    by (auto simp add: setTimeout_def appendChild_def split: if_splits)
  with g that show ?thesis by blast
qed

text \<open>The state after a successful \<open>notify\<close> on a page with fresh identities.\<close>

lemma notify_attached:
  assumes fresh: "fresh_ids p" and ok: "notify m opts p = Inr (n, p')"
  shows "\<exists>c. getElementById (''notifications-'' @ config_position opts) p' = Some c
            \<and> (\<forall>x\<in>set (flatten [] (doc p')). fst x = n \<longrightarrow> (\<exists>u. fst (snd x) = c # u))
            \<and> n \<in> set (doc_ids p') \<and> fresh_ids p' \<and> n = next_id p \<and> next_id p < next_id p'
            \<and> nid (doc p') = nid (doc p)
            \<and> elements_by_id s p' =
                elements_by_id s (snd (projr (getNotificationContainer (config_position opts)
                   (p\<lparr>next_id := next_id p + created opts\<rparr>))))"
proof -
  let ?pA = "p\<lparr>next_id := next_id p + created opts\<rparr>"
  let ?nf = "notification_node m opts (next_id p)"
  let ?cid = "''notifications-'' @ config_position opts"
  from ok obtain c q where
    g: "getNotificationContainer (config_position opts) ?pA = Inr (c, q)"
    and n: "n = next_id p"
    and d: "doc p' = graft c ?nf (doc q)"
    and nx: "next_id p' = next_id q"
    by (rule notify_success)
  have found: "getElementById ?cid q = Some c"
    using g by (rule getNotificationContainer_found)
  have ids: "next_id ?pA \<le> next_id q"
    "set (doc_ids q) \<subseteq> set (doc_ids ?pA) \<union> {i. i = next_id ?pA \<and> i < next_id q}"
    using getNotificationContainer_ids [OF g] by blast+
  have qid: "i < next_id q \<and> i \<noteq> n" if "i \<in> set (doc_ids q)" for i
  proof -
    from that ids(2) have "i \<in> set (doc_ids p) \<or> (i = next_id p + created opts \<and> i < next_id q)"
      by (auto simp add: doc_ids_def)
    then show ?thesis
      using fresh_idsD [OF fresh, of i] ids(1) created_ge_2 [of opts] n by auto
  qed
  have by_id: "elements_by_id s p' = elements_by_id s q" for s
  proof -
    have "elements_by_id s (appendChild c ?nf q) = elements_by_id s q"
      by (rule elements_by_id_appendChild_notification)
    then show ?thesis by (simp add: elements_by_id_def d)
  qed
  then have 1: "getElementById ?cid p' = Some c"
    using found by (simp add: getElementById_elements)
  have "c \<in> fst ` set (flatten [] (doc q))"
    using found by (rule getElementById_in_doc)
  from graft_new_present [OF this] obtain u' where
    u': "set (flatten (c # u') ?nf) \<subseteq> set (flatten [] (doc p'))"
    unfolding d by blast
  obtain e where "(next_id p, c # u', e) \<in> set (flatten (c # u') ?nf)"
    using notification_node_root by blast
  with u' have "(n, c # u', e) \<in> set (flatten [] (doc p'))" using n by blast
  then have 3: "n \<in> set (doc_ids p')" by (force simp add: doc_ids_def)
  have 2: "\<forall>x\<in>set (flatten [] (doc p')). fst x = n \<longrightarrow> (\<exists>u. fst (snd x) = c # u)"
  proof (intro ballI impI)
    fix x assume x: "x \<in> set (flatten [] (doc p'))" "fst x = n"
    from graft_new_or_old [OF x(1) [unfolded d]]
    show "\<exists>u. fst (snd x) = c # u"
    proof
      assume "x \<in> set (flatten [] (doc q))"
      then have "fst x \<in> set (doc_ids q)" by (simp add: doc_ids_def)
      with qid x(2) show ?thesis by blast
    next
      assume "\<exists>u'. x \<in> set (flatten (c # u') ?nf)"
      then obtain u'' where "x \<in> set (flatten (c # u'') ?nf)" by blast
      from flatten_notification_node [OF this] x(2) n show ?thesis by blast
    qed
  qed
  have 4: "fresh_ids p'"
  proof (rule fresh_idsI)
    fix i assume "i \<in> set (doc_ids p')"
    then have "i \<in> fst ` set (flatten [] (graft c ?nf (doc q)))"
      by (simp add: doc_ids_def d)
    from doc_ids_graft [OF this] show "i < next_id p'"
    proof
      assume "i \<in> fst ` set (flatten [] (doc q))"
      then have "i \<in> set (doc_ids q)" by (simp add: doc_ids_def)
      with qid nx show ?thesis by simp
    next
      assume "\<exists>u'. i \<in> fst ` set (flatten u' ?nf)"
      then obtain u'' x where "x \<in> set (flatten u'' ?nf)" "fst x = i" by auto
      from flatten_notification_node [OF this(1)] this(2) ids(1) nx show ?thesis by simp
    qed
  qed
  have 5: "next_id p < next_id p'"
    using ids(1) nx created_ge_2 [of opts] by simp
  have "nid (graft b t' t) = nid t" for b t' t by (cases t) simp
  moreover have "nid (doc q) = nid (doc p)"
    using g by (auto simp add: getNotificationContainer_eq appendChild_def
        \<open>\<And>b t' t. nid (graft b t' t) = nid t\<close> split: option.splits)
  ultimately have 6: "nid (doc p') = nid (doc p)" by (simp add: d)
  from 1 2 3 4 5 6 n by_id [of s] g show ?thesis by simp
qed

lemma parentElement_under:
  assumes "n \<in> set (doc_ids p)"
      and "\<forall>x\<in>set (flatten [] (doc p)). fst x = n \<longrightarrow> (\<exists>u. fst (snd x) = c # u)"
  shows "parentElement n p = Some c"
proof -
  from lookup_doc [OF assms(1)] obtain up e where
    l: "lookup n p = Some (up, e)" "(n, up, e) \<in> set (flatten [] (doc p))" by blast
  from assms(2) l(2) obtain u where "up = c # u" by force
  with l(1) show ?thesis by (simp add: parentElement_def)
qed

lemma getElementById_next_id [simp]:
  "getElementById s (p\<lparr>next_id := k\<rparr>) = getElementById s p"
  by (simp add: getElementById_def)

lemma notify_twice:
  assumes fresh: "fresh_ids p"
      and n1: "notify m1 o1 p = Inr (n1, p1)"
      and n2: "notify m2 o2 p1 = Inr (n2, p2)"
      and pos: "config_position o2 = config_position o1"
  shows "\<exists>c. getElementById (''notifications-'' @ config_position o1) p2 = Some c
            \<and> parentElement n1 p2 = Some c \<and> parentElement n2 p2 = Some c \<and> n1 \<noteq> n2
            \<and> elements_by_id (''notifications-'' @ config_position o1) p2
                = elements_by_id (''notifications-'' @ config_position o1) p1"
proof -
  let ?cid = "''notifications-'' @ config_position o1"
  let ?pB = "p1\<lparr>next_id := next_id p1 + created o2\<rparr>"
  from notify_attached [OF fresh n1, of ?cid] obtain c where
    c: "getElementById ?cid p1 = Some c"
    and u1: "\<forall>x\<in>set (flatten [] (doc p1)). fst x = n1 \<longrightarrow> (\<exists>u. fst (snd x) = c # u)"
    and in1: "n1 \<in> set (doc_ids p1)" and fresh1: "fresh_ids p1"
    and lt: "n1 = next_id p" "next_id p < next_id p1"
    by blast
  have gB: "getNotificationContainer (config_position o2) ?pB = Inr (c, ?pB)"
    using c pos by (intro getNotificationContainer_existing) simp
  from notify_attached [OF fresh1 n2, of ?cid] obtain c' where
    c': "getElementById ?cid p2 = Some c'"
    and u2: "\<forall>x\<in>set (flatten [] (doc p2)). fst x = n2 \<longrightarrow> (\<exists>u. fst (snd x) = c' # u)"
    and in2: "n2 \<in> set (doc_ids p2)"
    and eq2: "n2 = next_id p1"
    and by_id: "elements_by_id ?cid p2 = elements_by_id ?cid (snd (projr
         (getNotificationContainer (config_position o2) ?pB)))"
    unfolding pos by blast
  have same: "elements_by_id ?cid p2 = elements_by_id ?cid p1"
    using by_id by (simp add: gB elements_by_id_def)
  then have "c' = c" using c c' by (simp add: getElementById_elements)
  from n2 obtain c2 q2 where
    g2: "getNotificationContainer (config_position o2) ?pB = Inr (c2, q2)"
    and d2: "doc p2 = graft c2 (notification_node m2 o2 (next_id p1)) (doc q2)"
    by (rule notify_success)
  from g2 gB have "c2 = c" and "q2 = ?pB" by simp_all
  then have "doc q2 = doc p1" by simp
  with d2 \<open>c2 = c\<close>
  have d2': "doc p2 = graft c (notification_node m2 o2 (next_id p1)) (doc p1)"
    by simp
  have u1': "\<forall>x\<in>set (flatten [] (doc p2)). fst x = n1 \<longrightarrow> (\<exists>u. fst (snd x) = c # u)"
  proof (intro ballI impI)
    fix x assume x: "x \<in> set (flatten [] (doc p2))" "fst x = n1"
    from graft_new_or_old [OF x(1) [unfolded d2']]
    show "\<exists>u. fst (snd x) = c # u"
    proof
      assume "x \<in> set (flatten [] (doc p1))"
      with u1 x(2) show ?thesis by blast
    next
      assume "\<exists>u'. x \<in> set (flatten (c # u') (notification_node m2 o2 (next_id p1)))"
      then obtain u'' where "x \<in> set (flatten (c # u'') (notification_node m2 o2 (next_id p1)))"
        by blast
      from flatten_notification_node [OF this] x(2) lt show ?thesis by simp
    qed
  qed
  have "n1 \<in> set (doc_ids p2)"
  proof -
    from in1 obtain x where "x \<in> set (flatten [] (doc p1))" "fst x = n1"
      by (auto simp add: doc_ids_def)
    then have "x \<in> set (flatten [] (doc p2))" unfolding d2' by (intro graft_old_kept)
    with \<open>fst x = n1\<close> show ?thesis by (force simp add: doc_ids_def)
  qed
  then have "parentElement n1 p2 = Some c" using u1' by (rule parentElement_under)
  moreover have "parentElement n2 p2 = Some c"
    using in2 u2 [unfolded \<open>c' = c\<close>] by (rule parentElement_under)
  moreover have "n1 \<noteq> n2" using lt eq2 by simp
  ultimately show ?thesis using c' \<open>c' = c\<close> same by simp
qed

lemmas notify_eval = notify_eq getNotificationContainer_eq getElementById_def body_def
  blank_page_def plain_def appendChild_def setTimeout_def config_duration_def
  config_position_def config_dismissible_def config_type_def created_def is_space_def
  notification_node_def container_node_def default_notify_def doc_ids_def fresh_ids_def
  set_className_def setAttribute_def classList_add_def blank_def elements_by_id_def
  parentElement_def lookup_def entries_def

text \<open>
  C10. The notification container is created at most once for a position. On a page whose
  elements are older than the next one to be created: \<open>getNotificationContainer\<close>
  returns the element that already has the id \<open>notifications-<position>\<close> and leaves the
  page as it is; when there is none, a call that succeeds returns a new element, now in
  the document; after a call that succeeded, a second call returns the same element and
  changes nothing; and two successive \<open>notify\<close> calls with the same position put their
  notifications under the same container, the second call adding no element with the
  container's id.
\<close>

theorem notification_container_shared:
  assumes "fresh_ids p"
  shows "(getElementById (''notifications-'' @ pos) p = Some c
            \<longrightarrow> getNotificationContainer pos p = Inr (c, p))
         \<and> (getElementById (''notifications-'' @ pos) p = None
              \<and> getNotificationContainer pos p = Inr (c, q)
            \<longrightarrow> c = next_id p \<and> c \<notin> set (doc_ids p) \<and> c \<in> set (doc_ids q))
         \<and> (getNotificationContainer pos p = Inr (c, q)
            \<longrightarrow> getNotificationContainer pos q = Inr (c, q)
                \<and> getElementById (''notifications-'' @ pos) q = Some c)
         \<and> (notify m1 o1 p = Inr (n1, p1) \<and> notify m2 o2 p1 = Inr (n2, p2)
              \<and> config_position o2 = config_position o1
            \<longrightarrow> (\<exists>k. getElementById (''notifications-'' @ config_position o1) p2 = Some k
                     \<and> parentElement n1 p2 = Some k \<and> parentElement n2 p2 = Some k)
                \<and> n1 \<noteq> n2
                \<and> elements_by_id (''notifications-'' @ config_position o1) p2
                    = elements_by_id (''notifications-'' @ config_position o1) p1)"
proof -
  have a: "getElementById (''notifications-'' @ pos) p = Some c
            \<longrightarrow> getNotificationContainer pos p = Inr (c, p)"
    using getNotificationContainer_existing by blast
  have b: "getNotificationContainer pos p = Inr (c, q)
            \<longrightarrow> getNotificationContainer pos q = Inr (c, q)
                \<and> getElementById (''notifications-'' @ pos) q = Some c"
    using getNotificationContainer_idempotent getNotificationContainer_found by blast
  have c: "notify m1 o1 p = Inr (n1, p1) \<and> notify m2 o2 p1 = Inr (n2, p2)
              \<and> config_position o2 = config_position o1
            \<longrightarrow> (\<exists>k. getElementById (''notifications-'' @ config_position o1) p2 = Some k
                     \<and> parentElement n1 p2 = Some k \<and> parentElement n2 p2 = Some k)
                \<and> n1 \<noteq> n2
                \<and> elements_by_id (''notifications-'' @ config_position o1) p2
                    = elements_by_id (''notifications-'' @ config_position o1) p1"
    using notify_twice [OF assms, of m1 o1 n1 p1 m2 o2 n2 p2] by blast
  have d: "getElementById (''notifications-'' @ pos) p = None
              \<and> getNotificationContainer pos p = Inr (c, q)
            \<longrightarrow> c = next_id p \<and> c \<notin> set (doc_ids p) \<and> c \<in> set (doc_ids q)"
  proof
    assume h: "getElementById (''notifications-'' @ pos) p = None
               \<and> getNotificationContainer pos p = Inr (c, q)"
    then have 1: "c = next_id p"
      by (auto simp add: getNotificationContainer_eq split: option.splits)
    have 2: "c \<notin> set (doc_ids p)"
      using fresh_idsD [OF assms, of c] 1 by auto
    from h have "getNotificationContainer pos p = Inr (c, q)" by simp
    then have "getElementById (''notifications-'' @ pos) q = Some c"
      by (rule getNotificationContainer_found)
    then have 3: "c \<in> set (doc_ids q)"
      unfolding doc_ids_def set_map by (rule getElementById_in_doc)
    from 1 2 3 show "c = next_id p \<and> c \<notin> set (doc_ids p) \<and> c \<in> set (doc_ids q)"
      by blast
  qed
  from a b c d show ?thesis by blast
qed

theorem notification_container_shared_witness:
  "fresh_ids blank_page
   \<and> getElementById ''notifications-top-right'' blank_page = None
   \<and> (\<exists>p1 p2. notify ''Saved'' default_notify blank_page = Inr (3, p1)
         \<and> elements_by_id ''notifications-top-right'' p1 = [6]
         \<and> notify ''Again'' default_notify p1 = Inr (7, p2)
         \<and> getElementById ''notifications-top-right'' p2 = Some 6
         \<and> parentElement 3 p2 = Some 6 \<and> parentElement 7 p2 = Some 6
         \<and> elements_by_id ''notifications-top-right'' p2 = [6])"
proof -
  define p1 where "p1 = snd (projr (notify ''Saved'' default_notify blank_page))"
  define p2 where "p2 = snd (projr (notify ''Again'' default_notify p1))"
  have f: "fresh_ids blank_page"
    and g: "getElementById ''notifications-top-right'' blank_page = None"
    by (simp_all add: notify_eval)
  have n1: "notify ''Saved'' default_notify blank_page = Inr (3, p1)"
    by (simp add: p1_def notify_eval)
  have e1: "elements_by_id ''notifications-top-right'' p1 = [6]"
    by (simp add: p1_def notify_eval)
  have n2: "notify ''Again'' default_notify p1 = Inr (7, p2)"
    by (simp add: p2_def p1_def notify_eval)
  have pos: "config_position default_notify = ''top-right''"
    by (simp add: notify_eval)
  from notification_container_shared [OF f, where ?m1.0 = "''Saved''" and ?o1.0 = default_notify
      and ?n1.0 = 3 and ?p1.0 = p1 and ?m2.0 = "''Again''" and ?o2.0 = default_notify
      and ?n2.0 = 7 and ?p2.0 = p2] n1 n2
  obtain k where k: "getElementById (''notifications-'' @ config_position default_notify) p2
                       = Some k"
      "parentElement 3 p2 = Some k" "parentElement 7 p2 = Some k"
    and same: "elements_by_id (''notifications-'' @ config_position default_notify) p2
               = elements_by_id (''notifications-'' @ config_position default_notify) p1"
    by blast
  from same e1 pos have e2: "elements_by_id ''notifications-top-right'' p2 = [6]" by simp
  then have "getElementById ''notifications-top-right'' p2 = Some 6"
    by (simp add: getElementById_elements)
  with k pos have "k = 6" by simp
  with k pos e2 have "getElementById ''notifications-top-right'' p2 = Some 6
      \<and> parentElement 3 p2 = Some 6 \<and> parentElement 7 p2 = Some 6
      \<and> elements_by_id ''notifications-top-right'' p2 = [6]"
    by simp
  with f g n1 e1 n2 show ?thesis by blast
qed

section \<open>Properties of the dismissal timers\<close>

lemma prune_ids:
  "i \<in> fst ` set (flatten up (prune n t)) \<Longrightarrow> i \<noteq> n \<or> i = nid t"
proof (induction t arbitrary: up)
  case (Node j e ks)
  show ?case
  proof (cases "i = j")
    case True
    then show ?thesis by simp
  next
    case False
    with Node.prems obtain k where k: "k \<in> set ks" "nid k \<noteq> n"
        "i \<in> fst ` set (flatten (j # up) (prune n k))"
      by auto
    from Node.IH [OF k(1,3)] k(2) show ?thesis by auto
  qed
qed

lemma nid_graft [simp]: "nid (graft b c t) = nid t"
  by (cases t) simp

lemma nid_prune [simp]: "nid (prune n t) = nid t"
  by (cases t) simp

lemma root_in_doc_ids: "nid (doc p) \<in> set (doc_ids p)"
  by (cases "doc p") (simp add: doc_ids_def)

lemma doc_ids_update_element [simp]: "doc_ids (update_element n f p) = doc_ids p"
  by (rule doc_ids_amap [OF doc_update_element])

lemma dismissAlert_facts:
  "doc_ids (dismissAlert n p) = doc_ids p
   \<and> timers (dismissAlert n p) = timers p @ [(300, RemoveAlert n)]"
  by (simp add: dismissAlert_def Let_def setTimeout_def update_element_def doc_ids_def
      flatten_amap comp_def case_prod_unfold)

lemma remove_element_gone:
  assumes "n \<noteq> nid (doc p)"
  shows "n \<notin> set (doc_ids (remove_element n p))"
proof
  assume "n \<in> set (doc_ids (remove_element n p))"
  then have "n \<in> fst ` set (flatten [] (prune n (doc p)))"
    by (simp add: doc_ids_def remove_element_def)
  from prune_ids [OF this] assms show False by simp
qed

lemma notify_timers:
  assumes "notify m opts p = Inr (n, p')"
  shows "timers p' = (if config_duration opts > 0
                      then timers p @ [(config_duration opts, AutoDismiss n)] else timers p)"
proof -
  from assms obtain c q where
    g: "getNotificationContainer (config_position opts) (p\<lparr>next_id := next_id p + created opts\<rparr>)
          = Inr (c, q)"
    and t: "timers p' = (if config_duration opts > 0
                  then timers q @ [(config_duration opts, AutoDismiss n)] else timers q)"
    by (rule notify_success)
  from getNotificationContainer_ids [OF g] have "timers q = timers p" by simp
  with t show ?thesis by simp
qed

lemma notify_then_timers:
  assumes fresh: "fresh_ids p" and ok: "notify m opts p = Inr (n, p')"
      and pos: "0 < config_duration opts"
  shows "timers p' = timers p @ [(config_duration opts, AutoDismiss n)]
         \<and> n \<in> set (doc_ids p')
         \<and> timers (run_timer (length (timers p)) p') = timers p @ [(300, RemoveAlert n)]
         \<and> n \<in> set (doc_ids (run_timer (length (timers p)) p'))
         \<and> n \<notin> set (doc_ids (run_timer (length (timers p)) (run_timer (length (timers p)) p')))"
proof -
  let ?k = "length (timers p)"
  let ?p0 = "p'\<lparr>timers := timers p\<rparr>"
  have t: "timers p' = timers p @ [(config_duration opts, AutoDismiss n)]"
    using notify_timers [OF ok] pos by simp
  from notify_attached [OF fresh ok, of "[]"] have
    a: "n \<in> set (doc_ids p')" and r: "nid (doc p') = nid (doc p)" and nn: "n = next_id p"
    by blast+
  have "has_parentNode n ?p0" using a by (simp add: has_parentNode_def doc_ids_def)
  then have r1: "run_timer ?k p' = dismissAlert n ?p0"
    by (simp add: run_timer_def t)
  have d1: "doc_ids (run_timer ?k p') = doc_ids p'"
    and t1: "timers (run_timer ?k p') = timers p @ [(300, RemoveAlert n)]"
    using dismissAlert_facts [of n ?p0] by (simp_all add: r1 doc_ids_def)
  let ?p1 = "(run_timer ?k p')\<lparr>timers := timers p\<rparr>"
  have r2: "run_timer ?k (run_timer ?k p') = remove_element n ?p1"
    by (simp add: run_timer_def [of ?k "run_timer ?k p'"] t1)
  have "nid (doc ?p1) = nid (doc p)"
    by (simp add: r1 r dismissAlert_def Let_def setTimeout_def update_element_def)
  moreover have "nid (doc p) < next_id p"
    using fresh_idsD [OF fresh root_in_doc_ids] .
  ultimately have "n \<noteq> nid (doc ?p1)" using nn by simp
  then have "n \<notin> set (doc_ids (remove_element n ?p1))" by (rule remove_element_gone)
  with t a t1 d1 r2 show ?thesis by simp
qed

text \<open>
  C6, as stated, fails for a negative duration: the timer is set only when the duration
  is greater than 0 (\<open>if (config.duration > 0)\<close>). With the duration \<open>-1\<close>, which is
  not zero, the notification is in the document and no timer is pending, so nothing
  removes it.
\<close>

theorem notify_negative_duration_counterexample:
  "map_sum id (\<lambda>(n, p'). (n, n \<in> set (doc_ids p'), timers p'))
     (notify ''Saved'' (default_notify\<lparr>opt_duration := Some (- 1)\<rparr>) blank_page)
   = Inr (3, True, [])"
  by (simp add: notify_eval)

text \<open>
  C6, amended. For a \<open>notify\<close> call that succeeds on a page whose elements are older
  than the next one to be created: when the resolved duration is 0 or negative, no timer
  is added, so the notification is never dismissed automatically; when it is positive,
  exactly one timer with that delay is added; when the browser runs it, the notification
  is still in the document and a second timer of 300 ms is pending; when that one runs,
  the notification is no longer in the document.
\<close>

theorem notify_auto_dismiss:
  assumes "fresh_ids p" and "notify m opts p = Inr (n, p')"
  shows "(config_duration opts \<le> 0 \<longrightarrow> timers p' = timers p)
         \<and> (0 < config_duration opts \<longrightarrow>
              timers p' = timers p @ [(config_duration opts, AutoDismiss n)]
              \<and> n \<in> set (doc_ids p')
              \<and> timers (run_timer (length (timers p)) p') = timers p @ [(300, RemoveAlert n)]
              \<and> n \<in> set (doc_ids (run_timer (length (timers p)) p'))
              \<and> n \<notin> set (doc_ids (run_timer (length (timers p))
                                     (run_timer (length (timers p)) p'))))"
proof -
  have "config_duration opts \<le> 0 \<longrightarrow> timers p' = timers p"
    using notify_timers [OF assms(2)] by simp
  moreover have "0 < config_duration opts \<longrightarrow>
              timers p' = timers p @ [(config_duration opts, AutoDismiss n)]
              \<and> n \<in> set (doc_ids p')
              \<and> timers (run_timer (length (timers p)) p') = timers p @ [(300, RemoveAlert n)]
              \<and> n \<in> set (doc_ids (run_timer (length (timers p)) p'))
              \<and> n \<notin> set (doc_ids (run_timer (length (timers p))
                                     (run_timer (length (timers p)) p')))"
    using notify_then_timers [OF assms] by blast
  ultimately show ?thesis by blast
qed

theorem notify_auto_dismiss_witness:
  "fresh_ids blank_page
   \<and> (\<exists>p0. notify ''Saved'' (default_notify\<lparr>opt_duration := Some 0\<rparr>) blank_page = Inr (3, p0)
         \<and> timers p0 = [])
   \<and> (\<exists>p'. notify ''Saved'' default_notify blank_page = Inr (3, p')
         \<and> timers p' = [(5000, AutoDismiss 3)]
         \<and> timers (run_timer 0 p') = [(300, RemoveAlert 3)]
         \<and> 3 \<in> set (doc_ids (run_timer 0 p'))
         \<and> 3 \<notin> set (doc_ids (run_timer 0 (run_timer 0 p'))))"
proof -
  define p0 where
    "p0 = snd (projr (notify ''Saved'' (default_notify\<lparr>opt_duration := Some 0\<rparr>) blank_page))"
  define p' where "p' = snd (projr (notify ''Saved'' default_notify blank_page))"
  have f: "fresh_ids blank_page"
    and t: "timers blank_page = []"
    and d0: "config_duration (default_notify\<lparr>opt_duration := Some 0\<rparr>) = 0"
    and d: "config_duration default_notify = 5000"
    by (simp_all add: notify_eval)
  have n0: "notify ''Saved'' (default_notify\<lparr>opt_duration := Some 0\<rparr>) blank_page = Inr (3, p0)"
    by (simp add: p0_def notify_eval)
  have n: "notify ''Saved'' default_notify blank_page = Inr (3, p')"
    by (simp add: p'_def notify_eval)
  have a: "timers p0 = []"
    using notify_auto_dismiss [OF f n0] d0 t by simp
  have b: "timers p' = [(5000, AutoDismiss 3)]
         \<and> timers (run_timer 0 p') = [(300, RemoveAlert 3)]
         \<and> 3 \<in> set (doc_ids (run_timer 0 p'))
         \<and> 3 \<notin> set (doc_ids (run_timer 0 (run_timer 0 p')))"
    using notify_auto_dismiss [OF f n] d t by simp
  from f n0 a n b show ?thesis by blast
qed

section \<open>Properties of the animations\<close>

text \<open>
  C8. For an animation name that is none of the eight cases of the \<open>switch\<close>,
  \<open>animate\<close> appends the warning \<open>Animation "<name>" not found\<close> to the console and
  calls the callback at once when there is one; nothing else changes: no element is
  written, no timer is set and no Web Animation starts.
\<close>

theorem animate_unknown:
  assumes "animation \<notin> {''fadeIn'', ''fadeOut'', ''slideDown'', ''slideUp'', ''scaleIn'',
                         ''scaleOut'', ''bounce'', ''shake''}"
  shows "animate element animation duration callback p
         = p\<lparr>console := console p
                 @ [''Animation '' @ [CHR 0x22] @ animation @ [CHR 0x22] @ '' not found''],
             called := called p @ (case callback of None \<Rightarrow> [] | Some c \<Rightarrow> [c])\<rparr>
         \<and> doc (animate element animation duration callback p) = doc p
         \<and> detached (animate element animation duration callback p) = detached p
         \<and> timers (animate element animation duration callback p) = timers p
         \<and> animations (animate element animation duration callback p) = animations p"
proof -
  from assms have n: "animation \<noteq> ''fadeIn''" "animation \<noteq> ''fadeOut''"
    "animation \<noteq> ''slideDown''" "animation \<noteq> ''slideUp''" "animation \<noteq> ''scaleIn''"
    "animation \<noteq> ''scaleOut''" "animation \<noteq> ''bounce''" "animation \<noteq> ''shake''"
    by simp_all
  have "animate element animation duration callback p
        = invoke callback (console_warn (''Animation '' @ [CHR 0x22] @ animation @ [CHR 0x22]
                               @ '' not found'') p)"
    unfolding animate_def Let_def using n by (simp only: if_False)
  then show ?thesis
    by (cases callback) (simp_all add: invoke_def console_warn_def)
qed

theorem animate_unknown_witness:
  "animate 2 ''spin'' None (Some 7) blank_page
     = blank_page\<lparr>console := [''Animation '' @ [CHR 0x22] @ ''spin'' @ [CHR 0x22] @ '' not found''],
                   called := [7]\<rparr>
   \<and> timers (animate 2 ''spin'' None (Some 7) blank_page) = []"
proof -
  have "''spin'' \<notin> {''fadeIn'', ''fadeOut'', ''slideDown'', ''slideUp'', ''scaleIn'',
                         ''scaleOut'', ''bounce'', ''shake''}"
    by simp
  from animate_unknown [OF this, of 2 None "Some 7" blank_page]
  show ?thesis by (simp add: blank_page_def)
qed

section \<open>Properties of the counter animation\<close>

lemma find_append_cases:
  "find P (xs @ ys) = (case find P xs of None \<Rightarrow> find P ys | Some x \<Rightarrow> Some x)"
  by (induction xs) simp_all

lemma find_concat_rel:
  assumes "\<And>k. k \<in> set ks \<Longrightarrow> find P (f k) = map_option g (find P (h k))"
  shows "find P (concat (map f ks)) = map_option g (find P (concat (map h ks)))"
  using assms
proof (induction ks)
  case Nil
  then show ?case by simp
next
  case (Cons k ks)
  then show ?case by (simp add: find_append_cases split: option.splits)
qed

lemma find_set_text:
  "find (\<lambda>x. fst x = n) (flatten up (set_text n s t))
   = map_option (\<lambda>x. (fst x, fst (snd x), (snd (snd x))\<lparr>textContent := s\<rparr>))
       (find (\<lambda>x. fst x = n) (flatten up t))"
proof (induction t arbitrary: up)
  case (Node i e ks)
  show ?case
  proof (cases "i = n")
    case True
    then show ?thesis by simp
  next
    case False
    have "find (\<lambda>x. fst x = n) (concat (map (\<lambda>k. flatten (i # up) (set_text n s k)) ks))
          = map_option (\<lambda>x. (fst x, fst (snd x), (snd (snd x))\<lparr>textContent := s\<rparr>))
              (find (\<lambda>x. fst x = n) (concat (map (flatten (i # up)) ks)))"
      by (rule find_concat_rel) (simp add: Node.IH)
    with False show ?thesis by (simp add: comp_def)
  qed
qed

lemma lookup_set_textContent:
  assumes "lookup n p = Some (u, e)"
  shows "lookup n (set_textContent n s p) = Some (u, e\<lparr>textContent := s\<rparr>)"
proof -
  let ?P = "\<lambda>x. fst x = n"
  let ?g = "\<lambda>x. (fst x, fst (snd x), (snd (snd x))\<lparr>textContent := s\<rparr>)"
  let ?A = "flatten [] (doc p)" and ?B = "concat (map (flatten []) (detached p))"
  let ?A' = "flatten [] (set_text n s (doc p))"
  let ?B' = "concat (map (\<lambda>k. flatten [] (set_text n s k)) (detached p))"
  let ?C = "concat (map (flatten []) (children_of n p))"
  from assms obtain x where x: "find ?P (?A @ ?B) = Some x" "snd x = (u, e)"
    by (auto simp add: lookup_def entries_def case_prod_unfold)
  have a: "find ?P ?A' = map_option ?g (find ?P ?A)" by (rule find_set_text)
  have b: "find ?P ?B' = map_option ?g (find ?P ?B)"
    by (rule find_concat_rel) (rule find_set_text)
  have "find ?P (?A' @ ?B') = map_option ?g (find ?P (?A @ ?B))"
    by (simp add: find_append_cases a b split: option.splits)
  then have "find ?P (?A' @ ?B' @ ?C) = Some (?g x)"
    using x(1) by (simp add: find_append_cases [of ?P "?A' @ ?B'" ?C, simplified])
  moreover have "entries (set_textContent n s p) = ?A' @ ?B' @ ?C"
    by (simp add: entries_def set_textContent_def comp_def)
  ultimately show ?thesis using x(2)
    by (simp add: lookup_def case_prod_unfold)
qed

lemma lookup_fold_set_textContent:
  "lookup n p = Some (u, e) \<Longrightarrow> vs \<noteq> [] \<Longrightarrow>
   lookup n (fold (\<lambda>v. set_textContent n (f v)) vs p)
     = Some (u, e\<lparr>textContent := f (last vs)\<rparr>)"
proof (induction vs arbitrary: p e)
  case Nil
  then show ?case by simp
next
  case (Cons v vs)
  have l: "lookup n (set_textContent n (f v) p) = Some (u, e\<lparr>textContent := f v\<rparr>)"
    using Cons.prems(1) by (rule lookup_set_textContent)
  show ?case
  proof (cases "vs = []")
    case True
    with l show ?thesis by simp
  next
    case False
    from Cons.IH [OF l False] False show ?thesis by simp
  qed
qed

subsection \<open>Rounding\<close>

lemma log2_up_spec: "1 \<le> x \<Longrightarrow> 2 powi (log2_up x) \<le> x \<and> x < 2 powi (log2_up x + 1)"
proof (induction x rule: log2_up.induct)
  case (1 x)
  show ?case
  proof (cases "2 \<le> x")
    case True
    then have "1 \<le> x / 2" by simp
    from "1.IH" [OF True this]
    have "2 powi (log2_up (x / 2)) \<le> x / 2 \<and> x / 2 < 2 powi (log2_up (x / 2) + 1)" .
    then have "2 * 2 powi (log2_up (x / 2)) \<le> x \<and> x < 2 * 2 powi (log2_up (x / 2) + 1)"
      by simp
    moreover have "log2_up x = log2_up (x / 2) + 1"
      using True by (subst log2_up.simps) simp
    ultimately show ?thesis by (simp add: power_int_add)
  next
    case False
    then have "log2_up x = 0" by (subst log2_up.simps) simp
    with False "1.prems" show ?thesis by simp
  qed
qed

lemma log2_down_spec:
  "0 < x \<Longrightarrow> x < 1 \<Longrightarrow> 2 powi (log2_down x) \<le> x \<and> x < 2 powi (log2_down x + 1)"
proof (induction x rule: log2_down.induct)
  case (1 x)
  have l: "log2_down x = log2_down (2 * x) - 1"
    using "1.prems" by (subst log2_down.simps) simp
  show ?case
  proof (cases "2 * x < 1")
    case True
    from "1.IH" "1.prems" True
    have "2 powi (log2_down (2 * x)) \<le> 2 * x \<and> 2 * x < 2 powi (log2_down (2 * x) + 1)"
      by simp
    then show ?thesis unfolding l by (simp add: power_int_diff power_int_add)
  next
    case False
    then have "log2_down (2 * x) = 0" by (subst log2_down.simps) simp
    with l have "log2_down x = - 1" by simp
    with False "1.prems" show ?thesis by simp
  qed
qed

lemma exponent_spec:
  assumes "0 < x"
  shows "2 powi (exponent x) \<le> x \<and> x < 2 powi (exponent x + 1)"
  using assms log2_up_spec [of x] log2_down_spec [of x]
  by (cases "1 \<le> x") (simp_all add: exponent_def)

lemma round_even_of_int: "round_even (of_int n) = n"
  by (simp add: round_even_def)

lemma round_even_bounds: "\<lfloor>r\<rfloor> \<le> round_even r \<and> round_even r \<le> \<lfloor>r\<rfloor> + 1"
  by (simp add: round_even_def Let_def)

lemma round_even_mono:
  assumes "r \<le> s"
  shows "round_even r \<le> round_even s"
proof -
  have fg: "\<lfloor>r\<rfloor> \<le> \<lfloor>s\<rfloor>" using assms by (rule floor_mono)
  show ?thesis
  proof (cases "\<lfloor>r\<rfloor> = \<lfloor>s\<rfloor>")
    case False
    with fg have "\<lfloor>r\<rfloor> + 1 \<le> \<lfloor>s\<rfloor>" by simp
    with round_even_bounds [of r] round_even_bounds [of s] show ?thesis by linarith
  next
    case True
    have d: "r - of_int \<lfloor>s\<rfloor> \<le> s - of_int \<lfloor>s\<rfloor>" using assms by simp
    show ?thesis
      using d unfolding round_even_def Let_def True
      by (auto split: if_splits)
  qed
qed

lemma round_even_uminus: "round_even (- r) = - round_even r"
proof (cases "r = of_int \<lfloor>r\<rfloor>")
  case True
  then obtain n where "r = of_int n" ..
  then have "- r = of_int (- n)" by simp
  then have "round_even (- r) = - n" by (simp only: round_even_of_int)
  with \<open>r = of_int n\<close> show ?thesis by (simp add: round_even_of_int)
next
  case False
  then have c: "\<lceil>r\<rceil> = \<lfloor>r\<rfloor> + 1"
    by (metis ceiling_altdef)
  have f: "\<lfloor>- r\<rfloor> = - \<lfloor>r\<rfloor> - 1"
    using c by (simp add: ceiling_def)
  show ?thesis
    unfolding round_even_def Let_def f
    by (auto split: if_splits simp: algebra_simps)
qed

lemma round_even_nonneg: "0 \<le> r \<Longrightarrow> 0 \<le> round_even r"
  using round_even_mono [of 0 r] round_even_of_int [of 0] by simp

lemma ulp_pos: "0 < ulp x"
  by (simp add: ulp_def)

lemma ulp_uminus: "ulp (- x) = ulp x"
  by (simp add: ulp_def)

lemma fl_uminus: "fl (- x) = - fl x"
  by (simp add: fl_def ulp_uminus round_even_uminus)

lemma fl_nonneg: "0 \<le> x \<Longrightarrow> 0 \<le> fl x"
  unfolding fl_def using ulp_pos [of x] round_even_nonneg [of "x / ulp x"]
  by simp

lemma fl_0: "fl 0 = 0"
  by (simp add: fl_def round_even_def)

lemma fl_mono_pos:
  assumes "0 < x" "x \<le> y"
  shows "fl x \<le> fl y"
proof -
  define ex where "ex = max (exponent x) (- 1022)"
  define ey where "ey = max (exponent y) (- 1022)"
  have y: "0 < y" using assms by simp
  have ax: "\<bar>x\<bar> = x" and ay: "\<bar>y\<bar> = y" using assms by simp_all
  have ux: "ulp x = 2 powi (ex - 52)" and uy: "ulp y = 2 powi (ey - 52)"
    by (simp_all add: ulp_def ex_def ey_def ax ay)
  have exy: "exponent x \<le> exponent y"
  proof (rule ccontr)
    assume "\<not> exponent x \<le> exponent y"
    then have "exponent y + 1 \<le> exponent x" by simp
    then have "(2::rat) powi (exponent y + 1) \<le> 2 powi (exponent x)"
      by (intro power_int_increasing) simp_all
    with exponent_spec [OF assms(1)] exponent_spec [OF y] assms(2) show False by linarith
  qed
  then have le: "ex \<le> ey" by (simp add: ex_def ey_def)
  show ?thesis
  proof (cases "ex = ey")
    case True
    then have u: "ulp y = ulp x" by (simp add: ux uy)
    have "x / ulp x \<le> y / ulp x" using assms ulp_pos [of x] by (simp add: divide_right_mono)
    then have "round_even (x / ulp x) \<le> round_even (y / ulp x)" by (rule round_even_mono)
    then have "(of_int (round_even (x / ulp x)) :: rat) \<le> of_int (round_even (y / ulp x))"
      by simp
    then show ?thesis unfolding fl_def u using ulp_pos [of x]
      by (simp add: mult_right_mono)
  next
    case False
    with le have lt: "ex + 1 \<le> ey" by simp
    then have "- 1022 < ey" by (simp add: ex_def)
    then have eyy: "ey = exponent y" by (simp add: ey_def)
    have xlt: "x < 2 powi (ex + 1)"
    proof -
      have "(2::rat) powi (exponent x + 1) \<le> 2 powi (ex + 1)"
        by (intro power_int_increasing) (simp_all add: ex_def)
      with exponent_spec [OF assms(1)] show ?thesis by linarith
    qed
    have "x / ulp x \<le> of_int (2 ^ 53)"
    proof -
      have "x / ulp x \<le> 2 powi (ex + 1) / ulp x"
        using xlt ulp_pos [of x] by (simp add: divide_right_mono)
      also have "\<dots> = 2 powi 53"
        unfolding ux by (simp add: power_int_diff power_int_add)
      finally show ?thesis by simp
    qed
    then have "round_even (x / ulp x) \<le> round_even (of_int (2 ^ 53))" by (rule round_even_mono)
    then have "round_even (x / ulp x) \<le> 2 ^ 53" by (simp only: round_even_of_int)
    then have "(of_int (round_even (x / ulp x)) :: rat) \<le> of_int (2 ^ 53)"
      by (simp only: of_int_le_iff)
    then have "fl x \<le> of_int (2 ^ 53) * ulp x"
      unfolding fl_def using ulp_pos [of x] by (intro mult_right_mono) simp_all
    also have "\<dots> = 2 powi (ex + 1)"
      unfolding ux by (simp add: power_int_diff power_int_add)
    also have "\<dots> \<le> 2 powi ey"
      using lt by (intro power_int_increasing) simp_all
    finally have a: "fl x \<le> 2 powi ey" .
    have "of_int (2 ^ 52) \<le> y / ulp y"
    proof -
      have "2 powi ey / ulp y \<le> y / ulp y"
        using exponent_spec [OF y] ulp_pos [of y] by (simp add: divide_right_mono eyy)
      moreover have "2 powi ey / ulp y = 2 powi 52"
        unfolding uy by (simp add: power_int_diff)
      ultimately show ?thesis by simp
    qed
    then have "round_even (of_int (2 ^ 52)) \<le> round_even (y / ulp y)" by (rule round_even_mono)
    then have "2 ^ 52 \<le> round_even (y / ulp y)" by (simp only: round_even_of_int)
    then have "(of_int (2 ^ 52) :: rat) \<le> of_int (round_even (y / ulp y))"
      by (simp only: of_int_le_iff)
    then have "of_int (2 ^ 52) * ulp y \<le> fl y"
      unfolding fl_def using ulp_pos [of y] by (intro mult_right_mono) simp_all
    moreover have "of_int (2 ^ 52) * ulp y = 2 powi ey"
      unfolding uy by (simp add: power_int_diff)
    ultimately have "2 powi ey \<le> fl y" by simp
    with a show ?thesis by simp
  qed
qed

lemma fl_mono:
  assumes "x \<le> y"
  shows "fl x \<le> fl y"
proof -
  consider "0 < x" | "x \<le> 0" "0 \<le> y" | "y < 0" by linarith
  then show ?thesis
  proof cases
    case 1
    then show ?thesis using assms by (rule fl_mono_pos)
  next
    case 2
    have "0 \<le> fl (- x)" using 2 by (intro fl_nonneg) simp
    then have "fl x \<le> 0" by (simp add: fl_uminus)
    moreover have "0 \<le> fl y" using 2 by (intro fl_nonneg)
    ultimately show ?thesis by simp
  next
    case 3
    have "fl (- y) \<le> fl (- x)" using 3 assms by (intro fl_mono_pos) simp_all
    then show ?thesis by (simp add: fl_uminus)
  qed
qed

lemma floor_numeral_div:
  "\<lfloor>numeral a / numeral b :: rat\<rfloor> = numeral a div numeral b"
  using floor_divide_of_int_eq [of "numeral a" "numeral b", where ?'a = rat] by simp

lemma exponent_eq:
  assumes "2 powi e \<le> x" and "x < 2 powi (e + 1)"
  shows "exponent x = e"
proof -
  have "(0::rat) < 2 powi e" by simp
  with assms(1) have x: "0 < x" by linarith
  note s = exponent_spec [OF x]
  show ?thesis
  proof (rule ccontr)
    assume "exponent x \<noteq> e"
    then consider "exponent x + 1 \<le> e" | "e + 1 \<le> exponent x" by linarith
    then show False
    proof cases
      case 1
      then have "(2::rat) powi (exponent x + 1) \<le> 2 powi e"
        by (intro power_int_increasing) simp_all
      with s assms show False by linarith
    next
      case 2
      then have "(2::rat) powi (e + 1) \<le> 2 powi (exponent x)"
        by (intro power_int_increasing) simp_all
      with s assms show False by linarith
    qed
  qed
qed

lemma fl_eqI:
  assumes "2 powi e \<le> \<bar>x\<bar>" and "\<bar>x\<bar> < 2 powi (e + 1)" and "- 1022 \<le> e"
    and "of_int (round_even (x / 2 powi (e - 52))) * 2 powi (e - 52) = y"
  shows "fl x = y"
proof -
  have "exponent \<bar>x\<bar> = e" using assms(1,2) by (rule exponent_eq)
  with assms(3) have "ulp x = 2 powi (e - 52)" by (simp add: ulp_def)
  with assms(4) show ?thesis by (simp add: fl_def)
qed

lemmas round_eval = round_even_def Let_def floor_numeral_div

lemma fl_1: "fl 1 = 1"
  by (rule fl_eqI [where e = 0]) (simp_all add: round_eval)

lemma fl_100: "fl 100 = 100"
  by (rule fl_eqI [where e = 6]) (simp_all add: round_eval)

lemma fl_1000: "fl 1000 = 1000"
  by (rule fl_eqI [where e = 9]) (simp_all add: round_eval)

subsection \<open>The frame loop\<close>

lemma counter_frame_eq:
  "d \<noteq> 0 \<Longrightarrow> counter_frame pow3 st s e d t
     = (Finite (of_int (eased_value pow3 st s e d t)), progress st d t < 1)"
  by (simp add: counter_frame_def eased_value_def progress_def Let_def)

lemma counter_loop_Cons:
  assumes "d \<noteq> 0"
  shows "counter_loop pow3 st s e d (t # ts)
         = (if progress st d t < 1
            then (Finite (of_int (eased_value pow3 st s e d t))
                    # fst (counter_loop pow3 st s e d ts),
                  snd (counter_loop pow3 st s e d ts))
            else ([Finite (of_int (eased_value pow3 st s e d t)), Finite e], True))"
  by (simp add: counter_frame_eq [OF assms] split: prod.splits)

lemma counter_loop_completed:
  assumes "d \<noteq> 0"
  shows "snd (counter_loop pow3 st s e d ts) = reached st d ts"
  by (induction ts)
     (simp_all add: counter_loop_Cons [OF assms] reached_def del: counter_loop.simps(2))

lemma counter_loop_last:
  assumes "d \<noteq> 0"
  shows "ts \<noteq> [] \<Longrightarrow>
         fst (counter_loop pow3 st s e d ts) \<noteq> []
         \<and> last (fst (counter_loop pow3 st s e d ts)) = Finite (displayed pow3 st s e d ts)"
proof (induction ts)
  case Nil
  then show ?case by simp
next
  case (Cons t ts)
  show ?case
  proof (cases "progress st d t < 1")
    case False
    then show ?thesis
      by (simp add: counter_loop_Cons [OF assms] displayed_def reached_def
               del: counter_loop.simps(2))
  next
    case True
    show ?thesis
    proof (cases "ts = []")
      case True
      with \<open>progress st d t < 1\<close> show ?thesis
        by (simp add: counter_loop_Cons [OF assms] displayed_def reached_def
                 del: counter_loop.simps(2))
    next
      case False
      from Cons.IH [OF False]
      have ne: "fst (counter_loop pow3 st s e d ts) \<noteq> []"
        and la: "last (fst (counter_loop pow3 st s e d ts)) = Finite (displayed pow3 st s e d ts)"
        by simp_all
      have "displayed pow3 st s e d (t # ts) = displayed pow3 st s e d ts"
        using True False by (simp add: displayed_def reached_def)
      with True ne la show ?thesis
        by (simp add: counter_loop_Cons [OF assms] del: counter_loop.simps(2))
    qed
  qed
qed

lemma animateCounter_completed:
  "d \<noteq> 0 \<Longrightarrow> snd (animateCounter pow3 fmt el s e (Some d) st ts p) = reached st d ts"
  using counter_loop_completed [of d pow3 st s e ts]
  by (cases "counter_loop pow3 st s e d ts") (simp add: animateCounter_def)

lemma animateCounter_text:
  assumes "d \<noteq> 0" and "lookup el p = Some (u, e0)" and "ts \<noteq> []"
  shows "text_of el (fst (animateCounter pow3 fmt el s e (Some d) st ts p))
         = Some (fmt (Finite (displayed pow3 st s e d ts)))"
proof -
  let ?l = "counter_loop pow3 st s e d ts"
  from counter_loop_last [OF assms(1,3)]
  have ne: "fst ?l \<noteq> []" and la: "last (fst ?l) = Finite (displayed pow3 st s e d ts)"
    by simp_all
  have f: "fst (animateCounter pow3 fmt el s e (Some d) st ts p)
           = fold (\<lambda>v. set_textContent el (fmt v)) (fst ?l) p"
    by (cases "counter_loop pow3 st s e d ts") (simp add: animateCounter_def)
  have "lookup el (fold (\<lambda>v. set_textContent el (fmt v)) (fst ?l) p)
        = Some (u, e0\<lparr>textContent := fmt (last (fst ?l))\<rparr>)"
    using assms(2) ne by (rule lookup_fold_set_textContent)
  then show ?thesis by (simp add: f text_of_def element_at_def la)
qed

subsection \<open>The eased value\<close>

lemma progress_le_1: "progress st d t \<le> 1"
  by (simp add: progress_def)

lemma progress_mono:
  assumes "0 < d" and "t \<le> t'"
  shows "progress st d t \<le> progress st d t'"
proof -
  have "fl (t - st) \<le> fl (t' - st)" using assms(2) by (intro fl_mono) simp
  then have "fl (t - st) / d \<le> fl (t' - st) / d"
    using assms(1) by (simp add: divide_right_mono)
  then have "fl (fl (t - st) / d) \<le> fl (fl (t' - st) / d)" by (rule fl_mono)
  then show ?thesis unfolding progress_def by (simp add: min_le_iff_disj)
qed

lemma progress_nonneg:
  assumes "0 < d" and "st \<le> t"
  shows "0 \<le> progress st d t"
proof -
  have "0 \<le> fl (t - st)" using assms(2) by (intro fl_nonneg) simp
  then have "0 \<le> fl (t - st) / d" using assms(1) by simp
  then have "0 \<le> fl (fl (t - st) / d)" by (rule fl_nonneg)
  then show ?thesis by (simp add: progress_def)
qed

lemma progress_late:
  assumes "st + 1000 \<le> t"
  shows "\<not> progress st 1000 t < 1"
proof -
  have "fl 1000 \<le> fl (t - st)" using assms by (intro fl_mono) simp
  then have "1 \<le> fl (t - st) / 1000" by (simp add: fl_1000)
  then have "fl 1 \<le> fl (fl (t - st) / 1000)" by (rule fl_mono)
  then show ?thesis by (simp add: progress_def fl_1)
qed

lemma fl_one_minus:
  assumes "0 \<le> x" and "x \<le> 1"
  shows "0 \<le> fl (1 - x) \<and> fl (1 - x) \<le> 1"
proof -
  have "0 \<le> fl (1 - x)" using assms(2) by (intro fl_nonneg) simp
  moreover have "fl (1 - x) \<le> fl 1" using assms(1) by (intro fl_mono) simp
  ultimately show ?thesis by (simp add: fl_1)
qed

lemma eased_value_mono:
  assumes pw: "\<And>x y. 0 \<le> x \<Longrightarrow> x \<le> y \<Longrightarrow> y \<le> 1 \<Longrightarrow> pow3 x \<le> pow3 y"
    and d: "0 < d" and se: "s \<le> e" and st: "st \<le> t" and tt: "t \<le> t'"
  shows "eased_value pow3 st s e d t \<le> eased_value pow3 st s e d t'"
proof -
  let ?p = "progress st d t" and ?p' = "progress st d t'"
  have p: "0 \<le> ?p" "?p \<le> ?p'" "?p' \<le> 1"
    using progress_nonneg [OF d st] progress_mono [OF d tt] progress_le_1 by simp_all
  have a: "fl (1 - ?p') \<le> fl (1 - ?p)" using p(2) by (intro fl_mono) simp
  have "0 \<le> ?p'" using p by simp
  then have a0: "0 \<le> fl (1 - ?p')" using fl_one_minus [of ?p'] p(3) by simp
  have a1: "fl (1 - ?p) \<le> 1" using fl_one_minus [of ?p] p by simp
  have "pow3 (fl (1 - ?p')) \<le> pow3 (fl (1 - ?p))" using a0 a a1 by (rule pw)
  then have "fl (1 - pow3 (fl (1 - ?p))) \<le> fl (1 - pow3 (fl (1 - ?p')))"
    by (intro fl_mono) simp
  moreover have "0 \<le> fl (e - s)" using se by (intro fl_nonneg) simp
  ultimately have "fl (e - s) * fl (1 - pow3 (fl (1 - ?p)))
                   \<le> fl (e - s) * fl (1 - pow3 (fl (1 - ?p')))"
    by (rule mult_left_mono)
  then have "fl (fl (e - s) * fl (1 - pow3 (fl (1 - ?p))))
             \<le> fl (fl (e - s) * fl (1 - pow3 (fl (1 - ?p'))))"
    by (rule fl_mono)
  then have "fl (s + fl (fl (e - s) * fl (1 - pow3 (fl (1 - ?p)))))
             \<le> fl (s + fl (fl (e - s) * fl (1 - pow3 (fl (1 - ?p')))))"
    by (intro fl_mono) simp
  then show ?thesis unfolding eased_value_def by (rule floor_mono)
qed

lemma eased_value_le_100:
  assumes pw: "\<And>x. 0 \<le> x \<Longrightarrow> x \<le> 1 \<Longrightarrow> 0 \<le> pow3 x"
    and d: "0 < d" and st: "st \<le> t"
  shows "eased_value pow3 st 0 100 d t \<le> 100"
proof -
  let ?p = "progress st d t"
  have "0 \<le> fl (1 - ?p) \<and> fl (1 - ?p) \<le> 1"
    using progress_nonneg [OF d st] progress_le_1 by (rule fl_one_minus)
  then have "0 \<le> pow3 (fl (1 - ?p))" using pw by simp
  then have "fl (1 - pow3 (fl (1 - ?p))) \<le> fl 1" by (intro fl_mono) simp
  then have "100 * fl (1 - pow3 (fl (1 - ?p))) \<le> 100" by (simp add: fl_1)
  then have "fl (100 * fl (1 - pow3 (fl (1 - ?p)))) \<le> fl 100" by (rule fl_mono)
  then have "0 + fl (100 * fl (1 - pow3 (fl (1 - ?p)))) \<le> 100" by (simp add: fl_100)
  then have "fl (0 + fl (100 * fl (1 - pow3 (fl (1 - ?p))))) \<le> fl 100" by (rule fl_mono)
  then have "\<lfloor>fl (0 + fl (100 * fl (1 - pow3 (fl (1 - ?p)))))\<rfloor> \<le> \<lfloor>100 :: rat\<rfloor>"
    unfolding fl_100 by (rule floor_mono)
  then show ?thesis by (simp add: eased_value_def fl_100)
qed

lemma reached_take:
  assumes "j \<le> k" and "reached st d (take j ts)"
  shows "reached st d (take k ts)"
proof -
  have "set (take j ts) \<subseteq> set (take k ts)" using assms(1) by (rule set_take_subset_set_take)
  with assms(2) show ?thesis by (auto simp add: reached_def list_ex_iff)
qed

lemma last_take_nth:
  assumes "0 < k" and "k \<le> length ts"
  shows "last (take k ts) = ts ! (k - 1)"
proof -
  have "take k ts \<noteq> []" using assms by auto
  then have "last (take k ts) = take k ts ! (length (take k ts) - 1)" by (rule last_conv_nth)
  also have "\<dots> = ts ! (k - 1)" using assms by (simp add: min_def)
  finally show ?thesis .
qed

lemma displayed_mono:
  assumes pw: "\<And>x y. 0 \<le> x \<Longrightarrow> x \<le> y \<Longrightarrow> y \<le> 1 \<Longrightarrow> pow3 x \<le> pow3 y"
    and pw0: "\<And>x. 0 \<le> x \<Longrightarrow> x \<le> 1 \<Longrightarrow> 0 \<le> pow3 x"
    and d: "0 < d" and so: "sorted (st # ts)"
    and jk: "0 < j" "j \<le> k" "k \<le> length ts"
  shows "displayed pow3 st 0 100 d (take j ts) \<le> displayed pow3 st 0 100 d (take k ts)"
proof -
  have lj: "last (take j ts) = ts ! (j - 1)" and lk: "last (take k ts) = ts ! (k - 1)"
    using jk by (simp_all add: last_take_nth)
  have s: "sorted ts" and lo: "\<forall>x\<in>set ts. st \<le> x" using so by simp_all
  have se: "(0::rat) \<le> 100" by simp
  have jn: "j - 1 < length ts" and kn: "k - 1 < length ts" using jk by simp_all
  have stj: "st \<le> ts ! (j - 1)" using lo jn by simp
  have le: "ts ! (j - 1) \<le> ts ! (k - 1)"
    using s kn jk by (intro sorted_nth_mono) simp_all
  show ?thesis
  proof (cases "reached st d (take k ts)")
    case True
    show ?thesis
    proof (cases "reached st d (take j ts)")
      case True
      with \<open>reached st d (take k ts)\<close> show ?thesis by (simp add: displayed_def)
    next
      case False
      have "eased_value pow3 st 0 100 d (ts ! (j - 1)) \<le> 100"
        using pw0 d stj by (rule eased_value_le_100)
      then have "(of_int (eased_value pow3 st 0 100 d (ts ! (j - 1))) :: rat) \<le> of_int 100"
        by (simp only: of_int_le_iff)
      with True False show ?thesis by (simp add: displayed_def lj)
    qed
  next
    case False
    then have nj: "\<not> reached st d (take j ts)" using reached_take [OF jk(2)] by blast
    have "eased_value pow3 st 0 100 d (ts ! (j - 1)) \<le> eased_value pow3 st 0 100 d (ts ! (k - 1))"
      using pw d se stj le by (rule eased_value_mono)
    with False nj show ?thesis by (simp add: displayed_def lj lk)
  qed
qed

lemma eased_valueI:
  assumes "fl (t - st) = el" and "fl (el / d) = q" and "min q 1 = pr" and "fl (1 - pr) = a"
    and "pow3 a = c" and "fl (1 - c) = eo" and "fl (e - s) = df" and "fl (df * eo) = m"
    and "fl (s + m) = v" and "\<lfloor>v\<rfloor> = n"
  shows "eased_value pow3 st s e d t = n \<and> progress st d t = pr"
  by (simp only: eased_value_def progress_def assms)

subsection \<open>Example frames\<close>

lemma frame_16:
  "eased_value pow3_rounded 0 0 100 1000 16 = 4
   \<and> progress 0 1000 16 = 1152921504606847 / 72057594037927936"
proof -
  have a1: "fl (16 - 0) = 16"
    by (rule fl_eqI [where e = "4"]) (simp_all add: round_eval)
  have a2: "fl (16 / 1000) = 1152921504606847 / 72057594037927936"
    by (rule fl_eqI [where e = "-6"]) (simp_all add: round_eval)
  have a3: "min (1152921504606847 / 72057594037927936) 1 = (1152921504606847 / 72057594037927936 :: rat)" by simp
  have a4: "fl (1 - (1152921504606847 / 72057594037927936)) = 553942754166571 / 562949953421312"
    by (rule fl_eqI [where e = "-1"]) (simp_all add: round_eval)
  have a5: "pow3_rounded (553942754166571 / 562949953421312) = 4290867163026459 / 4503599627370496"
    unfolding pow3_rounded_def
    by (rule fl_eqI [where e = "-1"]) (simp_all add: round_eval power3_eq_cube)
  have a6: "fl (1 - (4290867163026459 / 4503599627370496)) = 212732464344037 / 4503599627370496"
    by (rule fl_eqI [where e = "-5"]) (simp_all add: round_eval)
  have a7: "fl (100 - 0) = 100"
    by (rule fl_eqI [where e = "6"]) (simp_all add: round_eval)
  have a8: "fl (100 * (212732464344037 / 4503599627370496)) = 5318311608600925 / 1125899906842624"
    by (rule fl_eqI [where e = "2"]) (simp_all add: round_eval)
  have a9: "fl (0 + (5318311608600925 / 1125899906842624)) = 5318311608600925 / 1125899906842624"
    by (rule fl_eqI [where e = "2"]) (simp_all add: round_eval)
  have a10: "\<lfloor>5318311608600925 / 1125899906842624 :: rat\<rfloor> = 4" by (simp add: floor_numeral_div)
  show ?thesis
    using a1 a2 a3 a4 a5 a6 a7 a8 a9 a10 by (rule eased_valueI)
qed

lemma frame_500:
  "eased_value pow3_rounded 0 0 100 1000 500 = 87
   \<and> progress 0 1000 500 = 1 / 2"
proof -
  have b1: "fl (500 - 0) = 500"
    by (rule fl_eqI [where e = "8"]) (simp_all add: round_eval)
  have b2: "fl (500 / 1000) = 1 / 2"
    by (rule fl_eqI [where e = "-1"]) (simp_all add: round_eval)
  have b3: "min (1 / 2) 1 = (1 / 2 :: rat)" by simp
  have b4: "fl (1 - (1 / 2)) = 1 / 2"
    by (rule fl_eqI [where e = "-1"]) (simp_all add: round_eval)
  have b5: "pow3_rounded (1 / 2) = 1 / 8"
    unfolding pow3_rounded_def
    by (rule fl_eqI [where e = "-3"]) (simp_all add: round_eval power3_eq_cube)
  have b6: "fl (1 - (1 / 8)) = 7 / 8"
    by (rule fl_eqI [where e = "-1"]) (simp_all add: round_eval)
  have b7: "fl (100 - 0) = 100"
    by (rule fl_eqI [where e = "6"]) (simp_all add: round_eval)
  have b8: "fl (100 * (7 / 8)) = 175 / 2"
    by (rule fl_eqI [where e = "6"]) (simp_all add: round_eval)
  have b9: "fl (0 + (175 / 2)) = 175 / 2"
    by (rule fl_eqI [where e = "6"]) (simp_all add: round_eval)
  have b10: "\<lfloor>175 / 2 :: rat\<rfloor> = 87" by (simp add: floor_numeral_div)
  show ?thesis
    using b1 b2 b3 b4 b5 b6 b7 b8 b9 b10 by (rule eased_valueI)
qed

lemma frame_near_999_999:
  "eased_value pow3_rounded 0 0 100 1000 near_999_999 = 100
   \<and> progress 0 1000 near_999_999 = 9007190247541737 / 9007199254740992"
proof -
  have c1: "fl (near_999_999 - 0) = 4398042113057489 / 4398046511104"
    by (rule fl_eqI [where e = "9"]) (simp_all add: round_eval near_999_999_def)
  have c2: "fl ((4398042113057489 / 4398046511104) / 1000) = 9007190247541737 / 9007199254740992"
    by (rule fl_eqI [where e = "-1"]) (simp_all add: round_eval)
  have c3: "min (9007190247541737 / 9007199254740992) 1 = (9007190247541737 / 9007199254740992 :: rat)" by simp
  have c4: "fl (1 - (9007190247541737 / 9007199254740992)) = 9007199255 / 9007199254740992"
    by (rule fl_eqI [where e = "-20"]) (simp_all add: round_eval)
  have c5: "pow3_rounded (9007199255 / 9007199254740992) = 5192296858982751 / 5192296858534827628530496329220096"
    unfolding pow3_rounded_def
    by (rule fl_eqI [where e = "-60"]) (simp_all add: round_eval power3_eq_cube)
  have c6: "fl (1 - (5192296858982751 / 5192296858534827628530496329220096)) = 1"
    by (rule fl_eqI [where e = "-1"]) (simp_all add: round_eval)
  have c7: "fl (100 - 0) = 100"
    by (rule fl_eqI [where e = "6"]) (simp_all add: round_eval)
  have c8: "fl (100 * 1) = 100"
    by (rule fl_eqI [where e = "6"]) (simp_all add: round_eval)
  have c9: "fl (0 + 100) = 100"
    by (rule fl_eqI [where e = "6"]) (simp_all add: round_eval)
  have c10: "\<lfloor>100 :: rat\<rfloor> = 100" by (simp add: floor_numeral_div)
  show ?thesis
    using c1 c2 c3 c4 c5 c6 c7 c8 c9 c10 by (rule eased_valueI)
qed

lemma progress_tie:
  "\<not> progress (7605102027001037 / 17592186044416) 1000 (6299322017854259 / 4398046511104) < 1"
proof -
  have 1: "fl (6299322017854259 / 4398046511104 - 7605102027001037 / 17592186044416) = 1000"
    by (rule fl_eqI [where e = "9"]) (simp_all add: round_eval)
  have 2: "fl (1000 / 1000) = 1"
    by (rule fl_eqI [where e = "0"]) (simp_all add: round_eval)
  show ?thesis by (simp only: progress_def 1 2)
qed

lemma pow3_rounded_mono: "0 \<le> x \<Longrightarrow> x \<le> y \<Longrightarrow> pow3_rounded x \<le> pow3_rounded y"
  unfolding pow3_rounded_def by (intro fl_mono power_mono)

lemma pow3_rounded_nonneg: "0 \<le> x \<Longrightarrow> 0 \<le> pow3_rounded x"
  unfolding pow3_rounded_def by (intro fl_nonneg zero_le_power)

lemma en_US_4: "en_US (Finite 4) = ''4''"
  by (simp add: en_US_def)

lemma en_US_87: "en_US (Finite 87) = ''87''"
  by (simp add: en_US_def)

lemma en_US_100: "en_US (Finite 100) = ''100''"
  by (simp add: en_US_def)

subsection \<open>The counter from 0 to 100 in 1000 ms\<close>

text \<open>
  C7. \<open>animateCounter(el, 0, 100, 1000)\<close> on an element of the page, called at the time
  \<open>st\<close> and followed by frames at the times \<open>ts\<close>, which do not decrease and are not
  before \<open>st\<close>. The arithmetic is that of binary64 numbers. Of the host it is assumed
  that \<open>Math.pow(x, 3)\<close> does not decrease in \<open>x\<close> and is not negative, for \<open>x\<close> between 0
  and 1, and that the locale writes the number 100 as \<open>"100"\<close>. Then: the animation has
  completed exactly when a frame has computed a progress that is not below 1, which a
  frame 1000 ms or more after the start does; when it has completed, the text of the
  element is \<open>"100"\<close>; after each frame the text of the element is the rendering of the
  displayed number, which is the floor of \<open>0 + 100 * (1 - Math.pow(1 - progress, 3))\<close>
  for the progress \<open>min(elapsed / 1000, 1)\<close> of that frame as long as no frame has
  reached the progress 1, and 100 from then on; and the displayed numbers never decrease
  from one frame to a later one (increasing is meant as not decreasing: two frames close
  in time display the same number). Without a frame nothing is written.
\<close>

theorem animateCounter_0_100_1000:
  assumes "sorted (st # ts)"
    and "\<And>x y. 0 \<le> x \<Longrightarrow> x \<le> y \<Longrightarrow> y \<le> 1 \<Longrightarrow> pow3 x \<le> pow3 y"
    and "\<And>x. 0 \<le> x \<Longrightarrow> x \<le> 1 \<Longrightarrow> 0 \<le> pow3 x"
    and "toLocaleString (Finite 100) = ''100''"
    and "lookup el p = Some (u, e)"
  shows "snd (animateCounter pow3 toLocaleString el 0 100 (Some 1000) st ts p)
           = reached st 1000 ts
         \<and> ((\<exists>t\<in>set ts. st + 1000 \<le> t)
              \<longrightarrow> snd (animateCounter pow3 toLocaleString el 0 100 (Some 1000) st ts p))
         \<and> (snd (animateCounter pow3 toLocaleString el 0 100 (Some 1000) st ts p)
              \<longrightarrow> text_of el (fst (animateCounter pow3 toLocaleString el 0 100 (Some 1000)
                                      st ts p))
                  = Some ''100'')
         \<and> (\<forall>k. 0 < k \<and> k \<le> length ts
                \<longrightarrow> text_of el (fst (animateCounter pow3 toLocaleString el 0 100 (Some 1000)
                                        st (take k ts) p))
                    = Some (toLocaleString
                              (Finite (displayed pow3 st 0 100 1000 (take k ts)))))
         \<and> (\<forall>k. k < length ts \<and> \<not> reached st 1000 (take (Suc k) ts)
                \<longrightarrow> displayed pow3 st 0 100 1000 (take (Suc k) ts)
                    = of_int \<lfloor>fl (0 + fl (fl (100 - 0)
                         * fl (1 - pow3 (fl (1 - min (fl (fl (ts ! k - st) / 1000)) 1)))))\<rfloor>)
         \<and> (\<forall>k. reached st 1000 (take k ts)
                \<longrightarrow> displayed pow3 st 0 100 1000 (take k ts) = 100)
         \<and> (\<forall>j k. 0 < j \<and> j \<le> k \<and> k \<le> length ts
                \<longrightarrow> displayed pow3 st 0 100 1000 (take j ts)
                    \<le> displayed pow3 st 0 100 1000 (take k ts))
         \<and> animateCounter pow3 toLocaleString el 0 100 (Some 1000) st [] p = (p, False)"
proof -
  let ?run = "animateCounter pow3 toLocaleString el 0 100 (Some 1000) st"
  have d: "(1000::rat) \<noteq> 0" and d': "(0::rat) < 1000" by simp_all
  have 1: "snd (?run ts p) = reached st 1000 ts"
    using d by (rule animateCounter_completed)
  have 2: "(\<exists>t\<in>set ts. st + 1000 \<le> t) \<longrightarrow> snd (?run ts p)"
    unfolding 1 reached_def list_ex_iff using progress_late by blast
  have shown: "text_of el (fst (?run xs p))
             = Some (toLocaleString (Finite (displayed pow3 st 0 100 1000 xs)))"
    if "xs \<noteq> []" for xs
    using d assms(5) that by (rule animateCounter_text)
  have 3: "snd (?run ts p) \<longrightarrow> text_of el (fst (?run ts p)) = Some ''100''"
  proof
    assume c: "snd (?run ts p)"
    then have r: "reached st 1000 ts" using 1 by simp
    then have "ts \<noteq> []" by (auto simp add: reached_def)
    from shown [OF this] r show "text_of el (fst (?run ts p)) = Some ''100''"
      by (simp add: displayed_def assms(4))
  qed
  have 4: "\<forall>k. 0 < k \<and> k \<le> length ts
             \<longrightarrow> text_of el (fst (?run (take k ts) p))
                 = Some (toLocaleString (Finite (displayed pow3 st 0 100 1000 (take k ts))))"
  proof (intro allI impI)
    fix k assume "0 < k \<and> k \<le> length ts"
    then have "take k ts \<noteq> []" by auto
    then show "text_of el (fst (?run (take k ts) p))
               = Some (toLocaleString (Finite (displayed pow3 st 0 100 1000 (take k ts))))"
      by (rule shown)
  qed
  have 5: "\<forall>k. k < length ts \<and> \<not> reached st 1000 (take (Suc k) ts)
             \<longrightarrow> displayed pow3 st 0 100 1000 (take (Suc k) ts)
                 = of_int \<lfloor>fl (0 + fl (fl (100 - 0)
                      * fl (1 - pow3 (fl (1 - min (fl (fl (ts ! k - st) / 1000)) 1)))))\<rfloor>"
  proof (intro allI impI)
    fix k assume a: "k < length ts \<and> \<not> reached st 1000 (take (Suc k) ts)"
    then have "last (take (Suc k) ts) = ts ! (Suc k - 1)"
      by (intro last_take_nth) simp_all
    with a show "displayed pow3 st 0 100 1000 (take (Suc k) ts)
                 = of_int \<lfloor>fl (0 + fl (fl (100 - 0)
                      * fl (1 - pow3 (fl (1 - min (fl (fl (ts ! k - st) / 1000)) 1)))))\<rfloor>"
      by (simp add: displayed_def eased_value_def progress_def)
  qed
  have 6: "\<forall>k. reached st 1000 (take k ts) \<longrightarrow> displayed pow3 st 0 100 1000 (take k ts) = 100"
    by (simp add: displayed_def)
  have 7: "\<forall>j k. 0 < j \<and> j \<le> k \<and> k \<le> length ts
             \<longrightarrow> displayed pow3 st 0 100 1000 (take j ts)
                 \<le> displayed pow3 st 0 100 1000 (take k ts)"
  proof (intro allI impI)
    fix j k assume "0 < j \<and> j \<le> k \<and> k \<le> length ts"
    then have j: "0 < j" "j \<le> k" "k \<le> length ts" by simp_all
    show "displayed pow3 st 0 100 1000 (take j ts) \<le> displayed pow3 st 0 100 1000 (take k ts)"
      using assms(2) assms(3) d' assms(1) j by (rule displayed_mono [of pow3])
  qed
  have 8: "?run [] p = (p, False)"
    by (simp add: animateCounter_def)
  from 1 2 3 4 5 6 7 8 show ?thesis by blast
qed

theorem animateCounter_0_100_1000_witness:
  "sorted (0 # [16, 500, near_999_999, 1016])
   \<and> en_US (Finite 100) = ''100''
   \<and> (\<exists>u e. lookup 2 blank_page = Some (u, e))
   \<and> text_of 2 (fst (animateCounter pow3_rounded en_US 2 0 100 (Some 1000) 0
                       [16] blank_page)) = Some ''4''
   \<and> text_of 2 (fst (animateCounter pow3_rounded en_US 2 0 100 (Some 1000) 0
                       [16, 500] blank_page)) = Some ''87''
   \<and> text_of 2 (fst (animateCounter pow3_rounded en_US 2 0 100 (Some 1000) 0
                       [16, 500, near_999_999] blank_page)) = Some ''100''
   \<and> reached 0 1000 [16, 500, near_999_999, 1016]
   \<and> \<not> reached 0 1000 [16, 500, near_999_999]
   \<and> snd (animateCounter pow3_rounded en_US 2 0 100 (Some 1000) 0
            [16, 500, near_999_999, 1016] blank_page)
   \<and> text_of 2 (fst (animateCounter pow3_rounded en_US 2 0 100 (Some 1000) 0
                       [16, 500, near_999_999, 1016] blank_page)) = Some ''100''"
proof -
  let ?ts = "[16, 500, near_999_999, 1016]"
  let ?run = "animateCounter pow3_rounded en_US 2 0 100 (Some 1000) 0"
  have s: "sorted (0 # ?ts)" by (simp add: near_999_999_def)
  have pw: "\<And>x y. 0 \<le> x \<Longrightarrow> x \<le> y \<Longrightarrow> y \<le> 1 \<Longrightarrow> pow3_rounded x \<le> pow3_rounded y"
    by (rule pow3_rounded_mono)
  have pw0: "\<And>x. 0 \<le> x \<Longrightarrow> x \<le> 1 \<Longrightarrow> 0 \<le> pow3_rounded x"
    by (rule pow3_rounded_nonneg)
  have "\<exists>u e. lookup 2 blank_page = Some (u, e)"
    by (simp add: lookup_def entries_def blank_page_def)
  then obtain u e where l: "lookup 2 blank_page = Some (u, e)" by blast
  note T = animateCounter_0_100_1000
    [of 0 ?ts pow3_rounded en_US 2 blank_page u e, OF s pw pw0 en_US_100 l]
  have p1: "progress 0 1000 16 < 1" and p2: "progress 0 1000 500 < 1"
    and p3: "progress 0 1000 near_999_999 < 1" and p4: "\<not> progress 0 1000 1016 < 1"
    using frame_16 frame_500 frame_near_999_999 progress_late [of 0 1016] by simp_all
  have r4: "reached 0 1000 ?ts" and r3: "\<not> reached 0 1000 [16, 500, near_999_999]"
    using p1 p2 p3 p4 by (simp_all add: reached_def)
  have d1: "displayed pow3_rounded 0 0 100 1000 [16] = 4"
    and d2: "displayed pow3_rounded 0 0 100 1000 [16, 500] = 87"
    and d3: "displayed pow3_rounded 0 0 100 1000 [16, 500, near_999_999] = 100"
    using p1 p2 p3 frame_16 frame_500 frame_near_999_999
    by (simp_all add: displayed_def reached_def)
  from T have t: "\<forall>k. 0 < k \<and> k \<le> length ?ts
     \<longrightarrow> text_of 2 (fst (?run (take k ?ts) blank_page))
         = Some (en_US (Finite (displayed pow3_rounded 0 0 100 1000 (take k ?ts))))"
    by blast
  have t1: "text_of 2 (fst (?run [16] blank_page)) = Some ''4''"
    using t [rule_format, of 1] by (simp add: d1 en_US_4)
  have t2: "text_of 2 (fst (?run [16, 500] blank_page)) = Some ''87''"
    using t [rule_format, of 2] by (simp add: d2 en_US_87)
  have t3: "text_of 2 (fst (?run [16, 500, near_999_999] blank_page)) = Some ''100''"
    using t [rule_format, of 3] by (simp add: d3 en_US_100)
  from T r4 have c: "snd (?run ?ts blank_page)" by blast
  with T have t4: "text_of 2 (fst (?run ?ts blank_page)) = Some ''100''" by blast
  from s en_US_100 l t1 t2 t3 r4 r3 c t4 show ?thesis by blast
qed


end
